theory Spec2Isabelle
  imports Main
begin

section \<open>Site-index lists of the MatOpt notebooks\<close>

text \<open>
  The notebooks compute index lists over the sites of a canvas with list comprehensions.
  Coordinates are Python floats; the development keeps the number type abstract (any type
  with the operations used), so nothing proved below depends on how the arithmetic rounds.
  A point is the list of its coordinates; reading a coordinate that is not there raises
  IndexError, as indexing does in Python.
\<close>

datatype py_error = IndexError | ValueError

definition item :: "'a list \<Rightarrow> nat \<Rightarrow> py_error + 'a" where
  "item xs k = (if k < length xs then Inr (xs ! k) else Inl IndexError)"

text \<open>
  A comprehension \<^verbatim>\<open>[x for x in xs if c(x)]\<close> whose condition may raise: the first
  raising element aborts the whole comprehension.
\<close>

fun comprehension :: "('b \<Rightarrow> py_error + bool) \<Rightarrow> 'b list \<Rightarrow> py_error + 'b list" where
  "comprehension c [] = Inr []"
| "comprehension c (x # xs) =
     (case c x of
        Inl e \<Rightarrow> Inl e
      | Inr b \<Rightarrow>
          (case comprehension c xs of
             Inl e \<Rightarrow> Inl e
           | Inr ys \<Rightarrow> Inr (if b then x # ys else ys)))"

text \<open>
  Nanowire notebook:
  \<^verbatim>\<open>
  CoreLayers = [
      i
      for i, p in enumerate(canvas.Points)
      if p[0] ** 2 + p[1] ** 2 < (coreRatio * radius) ** 2
  ]
  \<close>
\<close>

definition in_core :: "'a::{plus,power,ord} \<Rightarrow> 'a \<Rightarrow> nat \<times> 'a list \<Rightarrow> py_error + bool" where
  "in_core coreRatio radius ip =
     (case item (snd ip) 0 of
        Inl e \<Rightarrow> Inl e
      | Inr x \<Rightarrow>
          (case item (snd ip) 1 of
             Inl e \<Rightarrow> Inl e
           | Inr y \<Rightarrow> Inr (x ^ 2 + y ^ 2 < (coreRatio * radius) ^ 2)))"

definition CoreLayers :: "'a::{plus,power,ord} list list \<Rightarrow> 'a \<Rightarrow> 'a \<Rightarrow> py_error + nat list" where
  "CoreLayers Points coreRatio radius =
     (case comprehension (in_core coreRatio radius) (enumerate 0 Points) of
        Inl e \<Rightarrow> Inl e
      | Inr ips \<Rightarrow> Inr (map fst ips))"

text \<open>
  \<^verbatim>\<open>CanvasMinusCoreLayers = [i for i, p in enumerate(canvas.Points) if i not in CoreLayers]\<close>
\<close>

definition CanvasMinusCoreLayers :: "'a list list \<Rightarrow> nat list \<Rightarrow> nat list" where
  "CanvasMinusCoreLayers Points core =
     map fst (filter (\<lambda>ip. fst ip \<notin> set core) (enumerate 0 Points))"

text \<open>
  Surface-design notebook, where \<open>n\<close> is \<^verbatim>\<open>len(Canv)\<close>, \<open>c\<close> the float literal
  \<^verbatim>\<open>1.5\<close> and \<open>spacing\<close> is \<^verbatim>\<open>Lat.FCC111LayerSpacing\<close>:
  \<^verbatim>\<open>
  CanvTwoBotLayers = [
      i for i in range(len(Canv)) if Canv.Points[i][2] < 1.5 * Lat.FCC111LayerSpacing
  ]
  CanvMinusTwoBotLayers = [i for i in range(len(Canv)) if i not in CanvTwoBotLayers]
  \<close>
\<close>

definition in_two_bot :: "'a::{times,ord} list list \<Rightarrow> 'a \<Rightarrow> 'a \<Rightarrow> nat \<Rightarrow> py_error + bool" where
  "in_two_bot Points c spacing i =
     (case item Points i of
        Inl e \<Rightarrow> Inl e
      | Inr p \<Rightarrow>
          (case item p 2 of
             Inl e \<Rightarrow> Inl e
           | Inr z \<Rightarrow> Inr (z < c * spacing)))"

definition CanvTwoBotLayers :: "nat \<Rightarrow> 'a::{times,ord} list list \<Rightarrow> 'a \<Rightarrow> 'a \<Rightarrow> py_error + nat list" where
  "CanvTwoBotLayers n Points c spacing = comprehension (in_two_bot Points c spacing) [0..<n]"

definition CanvMinusTwoBotLayers :: "nat \<Rightarrow> nat list \<Rightarrow> nat list" where
  "CanvMinusTwoBotLayers n two_bot = filter (\<lambda>i. i \<notin> set two_bot) [0..<n]"

section \<open>The notebooks as scripts\<close>

text \<open>
  Every notebook is a list of code cells, run top to bottom. What the notebooks themselves
  contribute is the order of their calls into the libraries (MatOpt, RIPE, numpy, the
  isotsim module), the arguments they pass, and the control flow around those calls:
  \<^verbatim>\<open>try/except\<close>, \<^verbatim>\<open>if\<close>, \<^verbatim>\<open>for\<close>, \<^verbatim>\<open>while\<close>,
  \<^verbatim>\<open>with\<close>. The libraries are not part of the repository: what a call returns,
  whether it raises, and the data a test or a loop inspects are taken from a \<open>world\<close>, the oracle of a run.

  An argument is written as in the source when it is a literal or a name, and as the text
  of the expression otherwise.
\<close>

datatype arg = NoneLit | IntLit int | StrLit string | BoolLit bool | Name string | Expr string

type_synonym args = "(string option \<times> arg) list"

text \<open>
  An exception is an instance of \<^verbatim>\<open>Exception\<close>, or derives from
  \<^verbatim>\<open>BaseException\<close> only (\<^verbatim>\<open>KeyboardInterrupt\<close>, \<^verbatim>\<open>SystemExit\<close>).
  A bare \<^verbatim>\<open>except:\<close> catches both, \<^verbatim>\<open>except Exception\<close> the first kind.
\<close>

datatype exc = Exc string | BaseExc string

datatype handler = BareExcept | ExceptException

fun catches :: "handler \<Rightarrow> exc \<Rightarrow> bool" where
  "catches BareExcept e = True"
| "catches ExceptException (Exc n) = True"
| "catches ExceptException (BaseExc n) = False"

datatype val = VNone | VBool bool | VObj

datatype resp = Returns val | Raises exc

text \<open>
  Tests: \<^verbatim>\<open>x is not None\<close>; the truth value of a variable (\<^verbatim>\<open>if D:\<close>); a
  library call used as a test (\<^verbatim>\<open>lattice.isASite(p)\<close>); any other test on
  run-time data, named by its source text.
\<close>

datatype cond =
    IsNotNone string
  | Truthy string
  | CallCond string args
  | DataCond string

text \<open>
  Statements. \<open>Call\<close> is one call into a library, with the variable bound to its result,
  if any. \<open>For\<close> iterates over run-time data (named by its source text), \<open>ForRange\<close>
  a fixed number of times. \<open>With\<close> is a context manager: the call that creates it, the
  variable it is bound to, the body.
\<close>

datatype stmt =
    Import string
  | Assign string arg
  | Call "string option" string args
  | Print "arg list"
  | Try "stmt list" handler "stmt list"
  | If cond "stmt list" "stmt list"
  | For string "stmt list"
  | ForRange nat "stmt list"
  | While string "stmt list"
  | With string string "stmt list"

subsection \<open>Running a script\<close>

text \<open>
  The world answers by position: the outcome of the \<open>k\<close>-th query that is a library
  call or an import, the value of a test on run-time data, the number of elements an
  iteration finds.
\<close>

record world =
  outcome :: "nat \<Rightarrow> resp"
  test :: "nat \<Rightarrow> bool"
  count :: "nat \<Rightarrow> nat"

datatype event =
    Imported string resp
  | Called string args resp
  | Printed "arg list"
  | Exited string

datatype status = Running | Raised exc | OutOfFuel

record state =
  env :: "string \<Rightarrow> val option"
  trace :: "event list"
  status :: status
  clock :: nat

definition emit :: "event \<Rightarrow> state \<Rightarrow> state" where
  "emit ev s = s\<lparr>trace := trace s @ [ev], clock := Suc (clock s)\<rparr>"

definition tick :: "state \<Rightarrow> state" where
  "tick s = s\<lparr>clock := Suc (clock s)\<rparr>"

definition raise :: "exc \<Rightarrow> state \<Rightarrow> state" where
  "raise e s = s\<lparr>status := Raised e\<rparr>"

fun bind_result :: "string option \<Rightarrow> val \<Rightarrow> state \<Rightarrow> state" where
  "bind_result None v s = s"
| "bind_result (Some x) v s = s\<lparr>env := (env s)(x \<mapsto> v)\<rparr>"

text \<open>A library call: the outcome is recorded, then bound or raised.\<close>

definition do_call :: "world \<Rightarrow> string option \<Rightarrow> string \<Rightarrow> args \<Rightarrow> state \<Rightarrow> state" where
  "do_call \<omega> tgt f as s =
     (case outcome \<omega> (clock s) of
        Returns v \<Rightarrow> bind_result tgt v (emit (Called f as (Returns v)) s)
      | Raises e \<Rightarrow> raise e (emit (Called f as (Raises e)) s))"

definition do_import :: "world \<Rightarrow> string \<Rightarrow> state \<Rightarrow> state" where
  "do_import \<omega> m s =
     (case outcome \<omega> (clock s) of
        Returns v \<Rightarrow> emit (Imported m (Returns v)) s
      | Raises e \<Rightarrow> raise e (emit (Imported m (Raises e)) s))"

fun truth :: "val \<Rightarrow> bool" where
  "truth VNone = False"
| "truth (VBool b) = b"
| "truth VObj = True"

text \<open>
  A test gives its value and the state after it. Reading an unbound variable raises
  NameError. The truth value of an object is its own business (a MatOpt design has a
  length), so it is asked of the world.
\<close>

fun eval_cond :: "world \<Rightarrow> cond \<Rightarrow> state \<Rightarrow> bool \<times> state" where
  "eval_cond \<omega> (IsNotNone x) s =
     (case env s x of
        None \<Rightarrow> (False, raise (Exc ''NameError'') s)
      | Some v \<Rightarrow> (v \<noteq> VNone, s))"
| "eval_cond \<omega> (Truthy x) s =
     (case env s x of
        None \<Rightarrow> (False, raise (Exc ''NameError'') s)
      | Some VObj \<Rightarrow> (test \<omega> (clock s), tick s)
      | Some v \<Rightarrow> (truth v, s))"
| "eval_cond \<omega> (CallCond f as) s =
     (case outcome \<omega> (clock s) of
        Returns v \<Rightarrow> (truth v, emit (Called f as (Returns v)) s)
      | Raises e \<Rightarrow> (False, raise e (emit (Called f as (Raises e)) s)))"
| "eval_cond \<omega> (DataCond src) s = (test \<omega> (clock s), tick s)"

text \<open>
  \<open>exec\<close> runs one statement from a running state, \<open>execs\<close> a block, \<open>repeat\<close> the
  body of a loop a given number of times. A block stops at the first statement that leaves
  an exception pending. A \<^verbatim>\<open>while\<close> loop may run forever: every iteration costs one
  unit of fuel, and a run that has none left ends with status \<open>OutOfFuel\<close>.
\<close>

fun exec :: "world \<Rightarrow> nat \<Rightarrow> stmt \<Rightarrow> state \<Rightarrow> state"
  and execs :: "world \<Rightarrow> nat \<Rightarrow> stmt list \<Rightarrow> state \<Rightarrow> state"
  and repeat :: "world \<Rightarrow> nat \<Rightarrow> nat \<Rightarrow> stmt list \<Rightarrow> state \<Rightarrow> state"
where
  "exec \<omega> fuel (Import m) s = do_import \<omega> m s"
| "exec \<omega> fuel (Assign x a) s =
     s\<lparr>env := (env s)(x \<mapsto> (if a = NoneLit then VNone else VObj))\<rparr>"
| "exec \<omega> fuel (Call tgt f as) s = do_call \<omega> tgt f as s"
| "exec \<omega> fuel (Print m) s = s\<lparr>trace := trace s @ [Printed m]\<rparr>"
| "exec \<omega> fuel (Try body h hbody) s =
     (let s1 = execs \<omega> fuel body s in
      case status s1 of
        Raised e \<Rightarrow>
          if catches h e then execs \<omega> fuel hbody (s1\<lparr>status := Running\<rparr>) else s1
      | _ \<Rightarrow> s1)"
| "exec \<omega> fuel (If c thn els) s =
     (case eval_cond \<omega> c s of
        (b, s1) \<Rightarrow> if b then execs \<omega> fuel thn s1 else execs \<omega> fuel els s1)"
| "exec \<omega> fuel (For src body) s = repeat \<omega> fuel (count \<omega> (clock s)) body (tick s)"
| "exec \<omega> fuel (ForRange n body) s = repeat \<omega> fuel n body s"
| "exec \<omega> 0 (While src body) s = s\<lparr>status := OutOfFuel\<rparr>"
| "exec \<omega> (Suc fuel) (While src body) s =
     (if test \<omega> (clock s)
      then (let s1 = execs \<omega> fuel body (tick s) in
            if status s1 = Running then exec \<omega> fuel (While src body) s1 else s1)
      else tick s)"
| "exec \<omega> fuel (With ctx x body) s =
     (case outcome \<omega> (clock s) of
        Raises e \<Rightarrow> raise e (emit (Called ctx [] (Raises e)) s)
      | Returns v \<Rightarrow>
          (let s1 = execs \<omega> fuel body (bind_result (Some x) v (emit (Called ctx [] (Returns v)) s))
           in s1\<lparr>trace := trace s1 @ [Exited ctx]\<rparr>))"
| "execs \<omega> fuel [] s = s"
| "execs \<omega> fuel (c # cs) s =
     (if status s = Running then execs \<omega> fuel cs (exec \<omega> fuel c s) else s)"
| "repeat \<omega> fuel 0 body s = s"
| "repeat \<omega> fuel (Suc n) body s =
     (if status s = Running then repeat \<omega> fuel n body (execs \<omega> fuel body s) else s)"

definition init :: state where
  "init = \<lparr>env = Map.empty, trace = [], status = Running, clock = 0\<rparr>"

text \<open>Running a notebook runs its cells in order (\<^emph>\<open>Run All\<close>).\<close>

definition run :: "world \<Rightarrow> nat \<Rightarrow> stmt list list \<Rightarrow> state" where
  "run \<omega> fuel nb = execs \<omega> fuel (concat nb) init"

subsection \<open>The eight notebooks\<close>

text \<open>
  Each code cell is a list of statements, in source order. A loop over a list written out
  in the notebook runs as many times as the list has elements (\<open>ForRange\<close>); where the
  inner lists differ in length, as those of \<^verbatim>\<open>iToSetNi\<close> in the bifunctional notebook
  (6, 4, 4, 4, 4, 4, 4 elements), the outer loop is written out, one pair of inner loops per
  element. A statement with several library
  calls is written as the sequence of those calls in evaluation order (arguments before the
  call that takes them), the last one carrying the assignment. Attribute reads, arithmetic,
  indexing, comprehensions without library calls, and the built-ins \<^verbatim>\<open>len\<close>,
  \<^verbatim>\<open>range\<close>, \<^verbatim>\<open>min\<close>, \<^verbatim>\<open>round\<close>, \<^verbatim>\<open>sqrt\<close>,
  \<^verbatim>\<open>deepcopy\<close> and \<^verbatim>\<open>list.append\<close> are plain assignments. The first
  cell of every notebook holds the licence header only.
\<close>

abbreviation pos :: "arg \<Rightarrow> string option \<times> arg" where
  "pos a \<equiv> (None, a)"

abbreviation kw :: "string \<Rightarrow> arg \<Rightarrow> string option \<times> arg" where
  "kw k a \<equiv> (Some k, a)"

definition fallback :: string where
  "fallback = ''MaOpt can not find usable solver (CPLEX or NEOS-CPLEX)''"

text \<open>Nanowire Design: the cells up to the model, one list per code cell.\<close>

definition nanowire_setup :: "stmt list list" where
  "nanowire_setup =
     [[],
      [Import ''numpy'',
       Import ''copy''],
      [Import ''idaes.apps.matopt''],
      [Assign ''IAD'' (Expr ''3.7265''),
       Assign ''orientation'' (StrLit ''0001''),
       Call (Some ''lattice'') ''WurtziteLattice.alignedWith'' [pos (Name ''IAD''), pos (Name ''orientation'')]],
      [Assign ''nAtomRadius'' (IntLit 6),
       Assign ''nAtomUnitLength'' (IntLit 2),
       Call (Some ''origin'') ''np.zeros'' [pos (IntLit 3), kw ''dtype'' (Name ''float'')],
       Call (Some ''axisDirection'') ''np.array'' [pos (Expr ''[0, 0, 1]''), kw ''dtype'' (Name ''float'')],
       Call (Some ''radius'') ''lattice.getShellSpacing'' [pos (Name ''orientation'')],
       Call None ''lattice.getLayerSpacing'' [pos (Name ''orientation'')],
       Call (Some ''height'') ''lattice.getUniqueLayerCount'' [pos (Name ''orientation'')],
       Call (Some ''shape'') ''Cylinder'' [pos (Name ''origin''), pos (Name ''radius''), pos (Name ''height''), pos (Name ''axisDirection'')],
       Call None ''shape.shift'' [pos (Expr ''-0.001 * shape.Vh'')],
       Call (Some ''tiling'') ''LinearTiling.fromCylindricalShape'' [pos (Name ''shape'')]],
      [Call (Some ''canvas'') ''Canvas.fromLatticeAndShape'' [pos (Name ''lattice''), pos (Name ''shape'')],
       Call None ''canvas.makePeriodic'' [pos (Name ''tiling''), pos (Name ''lattice.getNeighbors'')]],
      [Call (Some ''design'') ''Design'' [pos (Name ''canvas'')],
       Call None ''Atom'' [pos (StrLit ''In'')],
       Call None ''Atom'' [pos (StrLit ''As'')],
       Call None ''lattice.setDesign'' [pos (Name ''design''), pos (Expr ''Atom(In)''), pos (Expr ''Atom(As)'')],
       Call None ''design.toPDB'' [pos (StrLit ''canvas.pdb'')]],
      [Call None ''Atom'' [pos (StrLit '''')],
       Call (Some ''m'') ''MatOptModel'' [pos (Name ''canvas''), pos (Expr ''[Atom()]'')]],
      [Assign ''coreRatio'' (Expr ''0.2''),
       Assign ''CoreLayers'' (Expr ''[i for i, p in enumerate(canvas.Points) if p[...''),
       Call None ''FixedTo'' [pos (IntLit 1), kw ''sites'' (Name ''CoreLayers'')]],
      [Assign ''CanvasMinusCoreLayers'' (Expr ''[i for i, p in enumerate(canvas.Points) if i ...''),
       Assign ''NeighborsInside'' (Expr ''[[j for j in canvas.NeighborhoodIndexes[i] if...''),
       Call None ''GreaterThan'' [pos (IntLit 1)],
       Call None ''ImpliesNeighbors'' [kw ''concs'' (Expr ''(m.Yi, GreaterThan(1))''), kw ''sites'' (Name ''CanvasMinusCoreLayers''), kw ''neighborhoods'' (Name ''NeighborsInside'')]],
      [Assign ''CNBounds'' (Expr ''(0, 4)''),
       Assign ''p'' (Expr ''-0.22479870084561238''),
       Assign ''q'' (Expr ''-0.9092660150083058''),
       Assign ''alpha'' (Expr ''-0.3684513''),
       Assign ''BPs'' (Expr ''list(range(CNBounds[0], CNBounds[1] + 1))''),
       Assign ''Vals'' (Expr ''[(p * pow(cn, 1 - alpha) - q * cn) for cn in ...''),
       Call None ''PiecewiseLinear'' [kw ''values'' (Name ''Vals''), kw ''breakpoints'' (Name ''BPs''), kw ''input_desc'' (Name ''m.Ci''), kw ''con_type'' (StrLit ''UB'')],
       Call None ''m.addSitesDescriptor'' [pos (StrLit ''Vi''), kw ''bounds'' (Expr ''(min(Vals), max(Vals))''), kw ''rules'' (Expr ''PiecewiseLinear(...)'')]],
      [Assign ''size'' (IntLit 216),
       Call None ''SumSites'' [kw ''desc'' (Name ''m.Vi''), kw ''coefs'' (Expr ''(1.0 / size)'')],
       Call None ''EqualTo'' [pos (Expr ''SumSites(...)'')],
       Call None ''m.addGlobalDescriptor'' [pos (StrLit ''Ecoh''), kw ''rules'' (Expr ''EqualTo(...)'')]],
      [Call None ''SumSites'' [kw ''desc'' (Name ''m.Yi'')],
       Call None ''EqualTo'' [pos (Expr ''SumSites(...)'')],
       Call None ''m.addGlobalDescriptor'' [pos (StrLit ''Size''), kw ''bounds'' (Expr ''(size, size)''), kw ''rules'' (Expr ''EqualTo(...)'')]]]"

text \<open>Nanowire Design: the cell that solves the model.\<close>

definition nanowire_solve :: "stmt list" where
  "nanowire_solve =
     [Assign ''optimalDesign'' (NoneLit),
      Try
        [Call (Some ''optimalDesign'') ''m.maximize'' [pos (Name ''m.Ecoh''), kw ''tilim'' (IntLit 360), kw ''solver'' (StrLit ''cplex'')]]
        BareExcept
        [Print [StrLit fallback]]]"

text \<open>Nanowire Design: the cell that processes the solution.\<close>

definition nanowire_process :: "stmt list" where
  "nanowire_process =
     [If (IsNotNone ''optimalDesign'')
        [For ''i, p in enumerate(optimalDesign.Canvas.Points)''
           [If (DataCond ''optimalDesign.Contents[i] is not None'')
              [If (CallCond ''lattice.isASite'' [pos (Name ''p'')])
                 [Call None ''Atom'' [pos (StrLit ''In'')],
                  Call None ''optimalDesign.setContent'' [pos (Name ''i''), pos (Expr ''Atom(In)'')]]
                 [If (CallCond ''lattice.isBSite'' [pos (Name ''p'')])
                    [Call None ''Atom'' [pos (StrLit ''As'')],
                     Call None ''optimalDesign.setContent'' [pos (Name ''i''), pos (Expr ''Atom(As)'')]]
                    []]]
              []],
         Call None ''optimalDesign.toPDB'' [pos (StrLit ''result.pdb'')],
         Assign ''periodicDesign'' (Expr ''deepcopy(optimalDesign)''),
         ForRange 4
           [For ''i, p in enumerate(optimalDesign.Canvas.Points)''
              [Call None ''periodicDesign.add'' [pos (Expr ''p + (k + 1) * shape.Vh''), pos (Expr ''optimalDesign.Contents[i]'')]]],
         ForRange 4
           [For ''i, p in enumerate(optimalDesign.Canvas.Points)''
              [Call None ''periodicDesign.add'' [pos (Expr ''p - (k + 1) * shape.Vh''), pos (Expr ''optimalDesign.Contents[i]'')]]],
         Call None ''periodicDesign.toPDB'' [pos (StrLit ''periodic_result.pdb'')]]
        []]"

definition nanowire :: "stmt list list" where
  "nanowire = nanowire_setup @ [nanowire_solve, nanowire_process]"

text \<open>Monometallic Nanocluster Design: the cells up to the model, one list per code cell.\<close>

definition monometallic_setup :: "stmt list list" where
  "monometallic_setup =
     [[],
      [Import ''numpy'',
       Import ''math''],
      [Import ''idaes.apps.matopt''],
      [Call (Some ''Lat'') ''FCCLattice'' [kw ''IAD'' (Expr ''2.770'')]],
      [Call (Some ''Canv'') ''Canvas'' [],
       Call None ''np.array'' [pos (Expr ''[0, 0, 0]''), kw ''dtype'' (Name ''float'')],
       Call None ''Canv.addLocation'' [pos (Expr ''np.array(...)'')],
       Call None ''Canv.addShells'' [pos (IntLit 2), pos (Name ''Lat.getNeighbors'')]],
      [Call None ''Atom'' [pos (StrLit ''Pt'')],
       Assign ''Atoms'' (Expr ''[Atom(Pt)]''),
       Call None ''Atom'' [pos (StrLit ''Pt'')],
       Call (Some ''D'') ''Design'' [pos (Name ''Canv''), pos (Expr ''Atom(Pt)'')],
       Call None ''D.toPDB'' [pos (StrLit ''canvas_sites.pdb'')]],
      [Assign ''N'' (IntLit 22),
       Call (Some ''m'') ''MatOptModel'' [pos (Name ''Canv''), pos (Name ''Atoms'')]],
      [Assign ''Vals'' (Expr ''[sqrt(CN) for CN in range(0, 13)]''),
       Assign ''BPs'' (Expr ''[CN for CN in range(0, 13)]''),
       Call None ''PiecewiseLinear'' [kw ''values'' (Name ''Vals''), kw ''breakpoints'' (Name ''BPs''), kw ''input_desc'' (Name ''m.Ci'')],
       Call None ''m.addSitesDescriptor'' [pos (StrLit ''CNRi''), kw ''bounds'' (Expr ''(0, sqrt(12))''), kw ''integer'' (BoolLit False), kw ''rules'' (Expr ''PiecewiseLinear(...)'')]],
      [Call None ''SumSites'' [kw ''desc'' (Name ''m.CNRi''), kw ''coefs'' (Expr ''(1 / (N * sqrt(12)))'')],
       Call None ''EqualTo'' [pos (Expr ''SumSites(...)'')],
       Call None ''m.addGlobalDescriptor'' [pos (StrLit ''Ecoh''), kw ''rules'' (Expr ''EqualTo(...)'')]],
      [Call None ''SumSites'' [kw ''desc'' (Name ''m.Yi'')],
       Call None ''EqualTo'' [pos (Expr ''SumSites(...)'')],
       Call None ''m.addGlobalDescriptor'' [pos (StrLit ''Size''), kw ''bounds'' (Expr ''(N, N)''), kw ''rules'' (Expr ''EqualTo(...)'')]],
      [Call None ''help'' [pos (Name ''MatOptModel.maximize'')],
       Call None ''help'' [pos (Name ''MatOptModel.optimize'')]]]"

text \<open>Monometallic Nanocluster Design: the cell that solves the model.\<close>

definition monometallic_solve :: "stmt list" where
  "monometallic_solve =
     [Assign ''D'' (NoneLit),
      Try
        [Call (Some ''D'') ''m.maximize'' [pos (Name ''m.Ecoh''), kw ''tilim'' (IntLit 100)]]
        BareExcept
        [Print [StrLit fallback]]]"

text \<open>Monometallic Nanocluster Design: the cell that processes the solution.\<close>

definition monometallic_process :: "stmt list" where
  "monometallic_process =
     [If (IsNotNone ''D'')
        [Call None ''D.toPDB'' [pos (StrLit ''result.pdb'')]]
        []]"

definition monometallic :: "stmt list list" where
  "monometallic = monometallic_setup @ [monometallic_solve, monometallic_process]"

text \<open>Surface Design: the cells up to the model, one list per code cell.\<close>

definition surface_setup :: "stmt list list" where
  "surface_setup =
     [[],
      [Import ''numpy'',
       Import ''copy''],
      [Import ''idaes.apps.matopt''],
      [Assign ''IAD'' (Expr ''2.828427''),
       Call (Some ''Lat'') ''FCCLattice.alignedWith111'' [pos (Name ''IAD'')]],
      [Assign ''nUnitCellsOnEdge'' (IntLit 4),
       Assign ''nLayers'' (IntLit 6),
       Assign ''a'' (Expr ''nUnitCellsOnEdge * IAD''),
       Assign ''b'' (Name ''a''),
       Assign ''c'' (Expr ''nLayers * Lat.FCC111LayerSpacing''),
       Assign ''alpha'' (Expr ''np.pi / 2''),
       Assign ''beta'' (Expr ''np.pi / 2''),
       Assign ''gamma'' (Expr ''np.pi / 3''),
       Call (Some ''S'') ''Parallelepiped.fromEdgesAndAngles'' [pos (Name ''a''), pos (Name ''b''), pos (Name ''c''), pos (Name ''alpha''), pos (Name ''beta''), pos (Name ''gamma'')],
       Call None ''np.array'' [pos (Expr ''[-0.01 * a, -0.01 * b, -0.01 * c]'')],
       Call None ''S.shift'' [pos (Expr ''np.array(...)'')],
       Call (Some ''T'') ''PlanarTiling'' [pos (Name ''S'')]],
      [Call (Some ''Canv'') ''Canvas.fromLatticeAndTilingScan'' [pos (Name ''Lat''), pos (Name ''T'')]],
      [Call None ''Atom'' [pos (StrLit ''Pt'')],
       Call (Some ''D'') ''Design'' [pos (Name ''Canv''), pos (Expr ''Atom(Pt)'')],
       Call None ''D.toPDB'' [pos (StrLit ''undefected.pdb'')],
       Call None ''D.toCFG'' [pos (StrLit ''undefected.cfg''), kw ''GS'' (Expr ''1.0''), kw ''BBox'' (Name ''S'')]],
      [Call None ''Atom'' [pos (StrLit ''Pt'')],
       Assign ''Atoms'' (Expr ''[Atom(Pt)]''),
       Assign ''TargetGCN'' (Expr ''8.0''),
       Assign ''CNsurfMin'' (IntLit 3),
       Assign ''CNsurfMax'' (IntLit 9),
       Assign ''TileSizeSquared'' (Expr ''nUnitCellsOnEdge**2''),
       Assign ''UndefectedSurfE'' (Expr ''0.129758''),
       Assign ''maxSurfE'' (IntLit 999),
       Assign ''CatWeight'' (Expr ''1.0'')],
      [Call (Some ''m'') ''MatOptModel'' [pos (Name ''Canv''), pos (Name ''Atoms'')]],
      [Assign ''CanvTwoBotLayers'' (Expr ''[i for i in range(len(Canv)) if Canv.Points[i...''),
       Assign ''CanvMinusTwoBotLayers'' (Expr ''[i for i in range(len(Canv)) if i not in Canv...''),
       Assign ''OneSiteInTopLayer'' (Expr ''[min([i for i in range(len(Canv)) if Canv.Poi...''),
       Call None ''FixedTo'' [pos (IntLit 1), kw ''sites'' (Name ''OneSiteInTopLayer'')],
       Call None ''FixedTo'' [pos (IntLit 1), kw ''sites'' (Name ''CanvTwoBotLayers'')]],
      [Assign ''NeighborsBelow'' (Expr ''[[j for j in Canv.NeighborhoodIndexes[i] if b...''),
       Call None ''GreaterThan'' [pos (IntLit 1)],
       Call None ''ImpliesNeighbors'' [kw ''concs'' (Expr ''(m.Yi, GreaterThan(1))''), kw ''sites'' (Name ''CanvMinusTwoBotLayers''), kw ''neighborhoods'' (Name ''NeighborsBelow'')]],
      [Call None ''SumNeighborSites'' [kw ''desc'' (Name ''m.Ci''), kw ''coefs'' (Expr ''1 / 12'')],
       Call None ''EqualTo'' [pos (Expr ''SumNeighborSites(...)'')],
       Call None ''m.addSitesDescriptor'' [pos (StrLit ''GCNi''), kw ''bounds'' (Expr ''(0, 12)''), kw ''integer'' (BoolLit False), kw ''rules'' (Expr ''EqualTo(...)''), kw ''sites'' (Name ''CanvMinusTwoBotLayers'')],
       Call None ''GreaterThan'' [pos (IntLit 3)],
       Call None ''Implies'' [kw ''concs'' (Expr ''(m.Ci, GreaterThan(3))'')],
       Call None ''LessThan'' [pos (IntLit 9)],
       Call None ''Implies'' [kw ''concs'' (Expr ''(m.Ci, LessThan(9))'')],
       Call None ''EqualTo'' [pos (Name ''TargetGCN'')],
       Call None ''Implies'' [kw ''concs'' (Expr ''(m.GCNi, EqualTo(TargetGCN))'')],
       Call None ''m.addSitesDescriptor'' [pos (StrLit ''IdealSitei''), kw ''binary'' (BoolLit True), kw ''rules'' (Expr ''[Implies(...), Implies(...), Implies(...)]''), kw ''sites'' (Name ''CanvMinusTwoBotLayers'')],
       Call None ''SumSites'' [pos (Name ''m.IdealSitei''), kw ''coefs'' (Expr ''1 / TileSizeSquared'')],
       Call None ''EqualTo'' [pos (Expr ''SumSites(...)'')],
       Call None ''m.addGlobalDescriptor'' [pos (StrLit ''Activity''), kw ''bounds'' (Expr ''(0, 1)''), kw ''rules'' (Expr ''EqualTo(...)'')]],
      [Assign ''EiVals'' (Expr ''[0, -0.04293 * 3 + 0.41492, -0.04293 * 10 + 0...''),
       Assign ''EiBPs'' (Expr ''[0, 3, 10, 11, 12]''),
       Call None ''PiecewiseLinear'' [kw ''values'' (Name ''EiVals''), kw ''breakpoints'' (Name ''EiBPs''), kw ''input_desc'' (Name ''m.Ci'')],
       Call None ''m.addSitesDescriptor'' [pos (StrLit ''Ei''), kw ''rules'' (Expr ''PiecewiseLinear(...)''), kw ''sites'' (Name ''CanvMinusTwoBotLayers'')],
       Call None ''SumSites'' [pos (Name ''m.Ei''), kw ''coefs'' (Expr ''1 / TileSizeSquared''), kw ''offset'' (Expr ''0.101208'')],
       Call None ''EqualTo'' [pos (Expr ''SumSites(...)'')],
       Call None ''m.addGlobalDescriptor'' [pos (StrLit ''Esurf''), kw ''bounds'' (Expr ''(None, maxSurfE)''), kw ''rules'' (Expr ''EqualTo(...)'')],
       Call None ''LinearExpr'' [pos (Name ''m.Esurf''), pos (Expr ''1 / UndefectedSurfE'')],
       Call None ''EqualTo'' [pos (Expr ''LinearExpr(...)'')],
       Call None ''m.addGlobalDescriptor'' [pos (StrLit ''Stability''), kw ''rules'' (Expr ''EqualTo(...)'')]],
      [Call None ''LinearExpr'' [kw ''descs'' (Expr ''[m.Stability, m.Activity]''), kw ''coefs'' (Expr ''[-(1 - CatWeight), CatWeight]'')],
       Call None ''EqualTo'' [pos (Expr ''LinearExpr(...)'')],
       Call None ''m.addGlobalDescriptor'' [pos (StrLit ''ActAndStab''), kw ''rules'' (Expr ''EqualTo(...)'')]]]"

text \<open>Surface Design: the cell that solves the model.\<close>

definition surface_solve :: "stmt list" where
  "surface_solve =
     [Assign ''D'' (NoneLit),
      Try
        [Call (Some ''D'') ''m.maximize'' [pos (Name ''m.ActAndStab''), kw ''tilim'' (IntLit 360)]]
        BareExcept
        [Print [StrLit fallback]]]"

text \<open>Surface Design: the cell that processes the solution.\<close>

definition surface_process :: "stmt list" where
  "surface_process =
     [If (IsNotNone ''D'')
        [Call None ''m.IdealSitei.keys'' [],
         For ''i in m.IdealSitei.keys()''
           [If (DataCond ''m.IdealSitei.values[i] > 0.5'')
              [Call None ''Atom'' [pos (StrLit ''S'')],
               Call None ''D.setContent'' [pos (Name ''i''), pos (Expr ''Atom(S)'')]]
              []],
         Call None ''D.toPDB'' [pos (StrLit ''result.pdb'')],
         Call (Some ''PeriodicD'') ''T.replicateDesign'' [pos (Name ''D''), pos (IntLit 4)],
         Assign ''PeriodicS'' (Expr ''deepcopy(S)''),
         Call None ''np.array'' [pos (Expr ''[4, 4, 1]'')],
         Call None ''PeriodicS.scale'' [pos (Expr ''np.array(...)'')],
         Call None ''PeriodicD.toCFG'' [pos (StrLit ''periodic_result.cfg''), kw ''BBox'' (Name ''PeriodicS'')]]
        []]"

definition surface :: "stmt list list" where
  "surface = surface_setup @ [surface_solve, surface_process]"

text \<open>Bifunctional Catalyst Design: the cells up to the model, one list per code cell.\<close>

definition bifunctional_setup :: "stmt list list" where
  "bifunctional_setup =
     [[],
      [Import ''copy'',
       Import ''numpy''],
      [Import ''idaes.apps.matopt''],
      [Assign ''IAD'' (Expr ''2.828''),
       Call (Some ''Lat'') ''FCCLattice.alignedWith111'' [pos (Name ''IAD'')]],
      [Assign ''nUnitCellsOnEdge'' (IntLit 8),
       Assign ''nLayers'' (IntLit 4),
       Assign ''a'' (Expr ''nUnitCellsOnEdge * IAD''),
       Assign ''b'' (Name ''a''),
       Assign ''c'' (Expr ''nLayers * Lat.FCC111LayerSpacing''),
       Assign ''alpha'' (Expr ''np.pi / 2''),
       Assign ''beta'' (Expr ''np.pi / 2''),
       Assign ''gamma'' (Expr ''np.pi / 3''),
       Call (Some ''S'') ''Parallelepiped.fromEdgesAndAngles'' [pos (Name ''a''), pos (Name ''b''), pos (Name ''c''), pos (Name ''alpha''), pos (Name ''beta''), pos (Name ''gamma'')],
       Call None ''np.array'' [pos (Expr ''[-0.01 * a, -0.01 * b, -0.01 * c]'')],
       Call None ''S.shift'' [pos (Expr ''np.array(...)'')],
       Call (Some ''T'') ''PlanarTiling'' [pos (Name ''S'')]],
      [Call (Some ''Canv'') ''Canvas.fromLatticeAndTilingScan'' [pos (Name ''Lat''), pos (Name ''T'')]],
      [Call None ''Atom'' [pos (StrLit ''Pt'')],
       Call (Some ''D'') ''Design'' [pos (Name ''Canv''), pos (Expr ''Atom(Pt)'')],
       Call None ''D.toPDB'' [pos (StrLit ''canvas.pdb'')],
       Call None ''D.toCFG'' [pos (StrLit ''canvas.cfg''), kw ''BBox'' (Name ''S'')]],
      [Call (Some ''MotifCanvas'') ''Canvas'' [],
       Call None ''np.array'' [pos (Expr ''[0, 0, 0]''), kw ''dtype'' (Name ''float'')],
       Call None ''MotifCanvas.addLocation'' [pos (Expr ''np.array(...)''), kw ''NNeighbors'' (IntLit 12)],
       Call None ''MotifCanvas.addShell'' [pos (Name ''Lat.getNeighbors'')],
       Assign ''Confs'' (Expr ''[[None] * len(MotifCanvas.NeighborhoodIndexes...''),
       Assign ''iToSetNi'' (Expr ''[[3, 4, 5, 6, 7, 8], [3, 4, 5, 6], [4, 5, 6, ...''),
       Assign ''iToSetPt'' (Expr ''[[9, 10, 11], [9, 10, 11], [9, 10, 11], [9, 1...''),
       ForRange 6
         [Call (Some ''Conf[i]'') ''Atom'' [pos (StrLit ''Ni'')]],
       ForRange 3
         [Call (Some ''Conf[i]'') ''Atom'' [pos (StrLit ''Pt'')]],
       ForRange 4
         [Call (Some ''Conf[i]'') ''Atom'' [pos (StrLit ''Ni'')]],
       ForRange 3
         [Call (Some ''Conf[i]'') ''Atom'' [pos (StrLit ''Pt'')]],
       ForRange 4
         [Call (Some ''Conf[i]'') ''Atom'' [pos (StrLit ''Ni'')]],
       ForRange 3
         [Call (Some ''Conf[i]'') ''Atom'' [pos (StrLit ''Pt'')]],
       ForRange 4
         [Call (Some ''Conf[i]'') ''Atom'' [pos (StrLit ''Ni'')]],
       ForRange 3
         [Call (Some ''Conf[i]'') ''Atom'' [pos (StrLit ''Pt'')]],
       ForRange 4
         [Call (Some ''Conf[i]'') ''Atom'' [pos (StrLit ''Ni'')]],
       ForRange 3
         [Call (Some ''Conf[i]'') ''Atom'' [pos (StrLit ''Pt'')]],
       ForRange 4
         [Call (Some ''Conf[i]'') ''Atom'' [pos (StrLit ''Ni'')]],
       ForRange 3
         [Call (Some ''Conf[i]'') ''Atom'' [pos (StrLit ''Pt'')]],
       ForRange 4
         [Call (Some ''Conf[i]'') ''Atom'' [pos (StrLit ''Ni'')]],
       ForRange 3
         [Call (Some ''Conf[i]'') ''Atom'' [pos (StrLit ''Pt'')]]],
      [Assign ''TypeAConfs'' (Expr ''[0]''),
       Assign ''TypeBConfs'' (Expr ''[1, 2, 3, 4, 5, 6]''),
       Assign ''LocsToFixPt'' (Expr ''[i for i in range(len(Canv)) if Canv.Points[i...''),
       Assign ''LocsToExcludePt'' (Expr ''[i for i in range(len(Canv)) if i not in Locs...''),
       Assign ''CanvTwoBotLayers'' (Expr ''[i for i in range(len(Canv)) if Canv.Points[i...''),
       Assign ''CanvMinusTwoBotLayers'' (Expr ''[i for i in range(len(Canv)) if i not in Canv...''),
       Assign ''OneLocToFix'' (Expr ''[min(LocsToExcludePt)]''),
       Assign ''TileSizeSquared'' (Expr ''nUnitCellsOnEdge**2''),
       Assign ''CatNorm'' (Expr ''TileSizeSquared * 6.0''),
       Assign ''UndefectedSurfE'' (Expr ''0.129758''),
       Assign ''maxSurfE'' (IntLit 999),
       Assign ''CatWeight'' (Expr ''1.0''),
       Call None ''Atom'' [pos (StrLit ''Ni'')],
       Call None ''Atom'' [pos (StrLit ''Pt'')],
       Assign ''Atoms'' (Expr ''[Atom(Ni), Atom(Pt)]'')],
      [Call (Some ''m'') ''MatOptModel'' [pos (Name ''Canv''), pos (Name ''Atoms''), pos (Name ''Confs'')]],
      [Call None ''Atom'' [pos (StrLit ''Pt'')],
       Call None ''FixedTo'' [pos (IntLit 1), kw ''sites'' (Name ''LocsToFixPt''), kw ''site_types'' (Expr ''[Atom(Pt)]'')],
       Call None ''Atom'' [pos (StrLit ''Pt'')],
       Call None ''FixedTo'' [pos (IntLit 0), kw ''sites'' (Name ''LocsToExcludePt''), kw ''site_types'' (Expr ''[Atom(Pt)]'')]],
      [Call None ''FixedTo'' [pos (IntLit 1), kw ''sites'' (Name ''OneLocToFix''), kw ''confs'' (Name ''TypeAConfs'')],
       Call None ''Atom'' [pos (StrLit ''Ni'')],
       Call None ''EqualTo'' [pos (IntLit 1), kw ''site_types'' (Expr ''[Atom(Ni)]'')],
       Call None ''Implies'' [kw ''concs'' (Expr ''(m.Yik, EqualTo(...))'')],
       Call (Some ''SumAConfsExpr'') ''SumConfs'' [pos (Name ''m.Zic''), kw ''confs_to_sum'' (Name ''TypeAConfs'')],
       Call (Some ''SumBConfsExpr'') ''SumConfs'' [pos (Name ''m.Zic''), kw ''confs_to_sum'' (Name ''TypeBConfs'')],
       Call None ''GreaterThan'' [pos (IntLit 1)],
       Call None ''GreaterThan'' [pos (IntLit 1)],
       Call None ''ImpliesSiteCombination'' [pos (Name ''Canv''), pos (Expr ''(SumAConfsExpr, GreaterThan(1))''), pos (Expr ''(SumBConfsExpr, GreaterThan(1))'')],
       Call None ''m.addBondsDescriptor'' [pos (StrLit ''SiteCombinations''), kw ''binary'' (BoolLit True), kw ''rules'' (Expr ''ImpliesSiteCombination(...)'')]],
      [Call None ''SumBonds'' [pos (Name ''m.SiteCombinations''), kw ''coefs'' (Expr ''1 / CatNorm'')],
       Call None ''EqualTo'' [pos (Expr ''SumBonds(...)'')],
       Call None ''m.addGlobalDescriptor'' [pos (StrLit ''Activity''), kw ''rules'' (Expr ''EqualTo(...)'')],
       Assign ''EiVals'' (Expr ''[0, -0.04293 * 3 + 0.41492, -0.04293 * 10 + 0...''),
       Assign ''EiBPs'' (Expr ''[0, 3, 10, 11, 12]''),
       Call None ''PiecewiseLinear'' [kw ''values'' (Name ''EiVals''), kw ''breakpoints'' (Name ''EiBPs''), kw ''input_desc'' (Name ''m.Ci'')],
       Call None ''m.addSitesDescriptor'' [pos (StrLit ''Ei''), kw ''rules'' (Expr ''PiecewiseLinear(...)''), kw ''sites'' (Name ''CanvMinusTwoBotLayers'')],
       Call None ''SumSites'' [pos (Name ''m.Ei''), kw ''coefs'' (Expr ''1 / TileSizeSquared''), kw ''offset'' (Expr ''0.101208'')],
       Call None ''EqualTo'' [pos (Expr ''SumSites(...)'')],
       Call None ''m.addGlobalDescriptor'' [pos (StrLit ''Esurf''), kw ''rules'' (Expr ''EqualTo(...)'')],
       Call None ''LinearExpr'' [pos (Name ''m.Esurf''), pos (Expr ''1 / UndefectedSurfE'')],
       Call None ''EqualTo'' [pos (Expr ''LinearExpr(...)'')],
       Call None ''m.addGlobalDescriptor'' [pos (StrLit ''Stability''), kw ''rules'' (Expr ''EqualTo(...)'')]],
      [Call None ''LinearExpr'' [kw ''descs'' (Expr ''[m.Stability, m.Activity]''), kw ''coefs'' (Expr ''[-(1 - CatWeight), CatWeight]'')],
       Call None ''EqualTo'' [pos (Expr ''LinearExpr(...)'')],
       Call None ''m.addGlobalDescriptor'' [pos (StrLit ''ActAndStab''), kw ''rules'' (Expr ''EqualTo(...)'')]]]"

text \<open>Bifunctional Catalyst Design: the cell that solves the model.\<close>

definition bifunctional_solve :: "stmt list" where
  "bifunctional_solve =
     [Assign ''D'' (NoneLit),
      Try
        [Call (Some ''D'') ''m.maximize'' [pos (Name ''m.ActAndStab''), kw ''tilim'' (IntLit 360)]]
        BareExcept
        [Print [StrLit fallback]]]"

text \<open>Bifunctional Catalyst Design: the cell that processes the solution.\<close>

definition bifunctional_process :: "stmt list" where
  "bifunctional_process =
     [If (IsNotNone ''D'')
        [Call None ''D.toCFG'' [pos (StrLit ''result.cfg''), kw ''BBox'' (Name ''S'')],
         Call (Some ''PeriodicD'') ''T.replicateDesign'' [pos (Name ''D''), pos (IntLit 4)],
         Assign ''PeriodicS'' (Expr ''deepcopy(S)''),
         Call None ''np.array'' [pos (Expr ''[4, 4, 1]'')],
         Call None ''PeriodicS.scale'' [pos (Expr ''np.array(...)'')],
         Call None ''PeriodicD.toCFG'' [pos (StrLit ''periodic_result.cfg''), kw ''BBox'' (Name ''PeriodicS'')]]
        []]"

definition bifunctional :: "stmt list list" where
  "bifunctional = bifunctional_setup @ [bifunctional_solve, bifunctional_process]"

text \<open>Bimetallic Nanocluster: the cells of the monometallic model it starts from.\<close>

definition bimetallic_setup :: "stmt list list" where
  "bimetallic_setup =
     [[],
      [Import ''numpy'',
       Import ''math''],
      [Import ''idaes.apps.matopt''],
      [Call (Some ''Lat'') ''FCCLattice'' [kw ''IAD'' (Expr ''1.0'')],
       Call (Some ''Canv'') ''Canvas'' [],
       Call None ''np.array'' [pos (Expr ''[0, 0, 0]''), kw ''dtype'' (Name ''float'')],
       Call None ''Canv.addLocation'' [pos (Expr ''np.array(...)'')],
       Call None ''Canv.addShells'' [pos (IntLit 1), pos (Name ''Lat.getNeighbors'')],
       Call None ''Atom'' [pos (StrLit ''Cu'')],
       Assign ''Atoms'' (Expr ''[Atom(Cu)]''),
       Assign ''N'' (IntLit 6),
       Call (Some ''m'') ''MatOptModel'' [pos (Name ''Canv''), pos (Name ''Atoms'')],
       Assign ''Vals'' (Expr ''[sqrt(CN) for CN in range(0, 13)]''),
       Assign ''BPs'' (Expr ''[CN for CN in range(0, 13)]''),
       Call None ''PiecewiseLinear'' [kw ''values'' (Name ''Vals''), kw ''breakpoints'' (Name ''BPs''), kw ''input_desc'' (Name ''m.Ci'')],
       Call None ''m.addSitesDescriptor'' [pos (StrLit ''CNRi''), kw ''bounds'' (Expr ''(0, sqrt(12))''), kw ''integer'' (BoolLit False), kw ''rules'' (Expr ''PiecewiseLinear(...)'')],
       Call None ''SumSites'' [kw ''desc'' (Name ''m.CNRi''), kw ''coefs'' (Expr ''(1 / (N * sqrt(12)))'')],
       Call None ''EqualTo'' [pos (Expr ''SumSites(...)'')],
       Call None ''m.addGlobalDescriptor'' [pos (StrLit ''Ecoh''), kw ''rules'' (Expr ''EqualTo(...)'')],
       Call None ''SumSites'' [kw ''desc'' (Name ''m.Yi'')],
       Call None ''EqualTo'' [pos (Expr ''SumSites(...)'')],
       Call None ''m.addGlobalDescriptor'' [pos (StrLit ''Size''), kw ''bounds'' (Expr ''(N, N)''), kw ''rules'' (Expr ''EqualTo(...)'')]]]"

text \<open>Bimetallic Nanocluster: the cell that solves the monometallic model.\<close>

definition bimetallic_first_solve :: "stmt list" where
  "bimetallic_first_solve =
     [Try
        [Call (Some ''D'') ''m.maximize'' [pos (Name ''m.Ecoh''), kw ''tilim'' (IntLit 100)]]
        ExceptException
        [Assign ''D'' (NoneLit)]]"

text \<open>Bimetallic Nanocluster: the cells of the bimetallic model.\<close>

definition bimetallic_setup2 :: "stmt list list" where
  "bimetallic_setup2 =
     [[Call (Some ''Canv'') ''Canvas'' [],
       If (Truthy ''D'')
         [For ''i in range(len(D))''
            [If (DataCond ''D.Contents[i] is not None'')
               [Call None ''Canv.addLocation'' [pos (Expr ''D.Canvas.Points[i]'')]]
               []]]
         [],
       Call None ''Canv.setNeighborsFromFunc'' [pos (Name ''Lat.getNeighbors'')]],
      [Call None ''Atom'' [pos (StrLit ''Cu'')],
       Call None ''Atom'' [pos (StrLit ''Ag'')],
       Assign ''Atoms'' (Expr ''[Atom(Cu), Atom(Ag)]''),
       Call None ''Atom'' [pos (StrLit ''Cu'')],
       Call None ''Atom'' [pos (StrLit ''Ag'')],
       Assign ''CompBounds'' (Expr ''{Atom(Cu): (3, 3), Atom(Ag): (3, 3)}'')],
      [Call (Some ''m'') ''MatOptModel'' [pos (Name ''Canv''), pos (Name ''Atoms'')]],
      [Call None ''FixedTo'' [pos (Expr ''1.0'')]],
      [Call None ''Atom'' [pos (StrLit ''Cu'')],
       Call None ''Atom'' [pos (StrLit ''Cu'')],
       Call None ''Atom'' [pos (StrLit ''Cu'')],
       Call None ''Atom'' [pos (StrLit ''Ag'')],
       Call None ''Atom'' [pos (StrLit ''Ag'')],
       Call None ''Atom'' [pos (StrLit ''Ag'')],
       Call None ''Atom'' [pos (StrLit ''Ag'')],
       Call None ''Atom'' [pos (StrLit ''Cu'')],
       Assign ''GklCoefs'' (Expr ''{(Cu, Cu): 3.520, (Cu, Ag): 2.112, (Ag, Ag): ...''),
       Assign ''BEijCoefs'' (Expr ''{}''),
       For ''i in range(len(Canv))''
         [Assign ''CNi'' (Expr ''sum(1 for _ in Canv.NeighborhoodIndexes[i] if...''),
          For ''j in Canv.NeighborhoodIndexes[i]''
            [If (DataCond ''j is not None'')
               [Assign ''CNj'' (Expr ''sum(1 for _ in Canv.NeighborhoodIndexes[j] if...''),
                ForRange 2
                  [ForRange 2
                     [Assign ''BEijCoefs[i, j, k, l]'' (Expr ''GklCoefs[k, l] * 1 / sqrt(CNi) + GklCoefs[l, ...'')]]]
               []]],
       Call None ''SumBondTypes'' [pos (Name ''m.Xijkl''), kw ''coefs'' (Name ''BEijCoefs'')],
       Call None ''EqualTo'' [pos (Expr ''SumBondTypes(...)'')],
       Call None ''m.addBondsDescriptor'' [pos (StrLit ''BEij''), kw ''rules'' (Expr ''EqualTo(...)''), kw ''symmetric_bonds'' (BoolLit True)]],
      [Call None ''SumBonds'' [kw ''desc'' (Name ''m.BEij''), kw ''coefs'' (Expr ''1 / (N * sqrt(12))'')],
       Call None ''EqualTo'' [pos (Expr ''SumBonds(...)'')],
       Call None ''m.addGlobalDescriptor'' [pos (StrLit ''Ecoh''), kw ''rules'' (Expr ''EqualTo(...)'')]],
      [Call None ''SumSites'' [kw ''desc'' (Name ''m.Yik'')],
       Call None ''EqualTo'' [pos (Expr ''SumSites(...)'')],
       Call None ''m.addGlobalTypesDescriptor'' [pos (StrLit ''Composition''), kw ''bounds'' (Name ''CompBounds''), kw ''rules'' (Expr ''EqualTo(...)'')]]]"

text \<open>Bimetallic Nanocluster: the cell that solves the bimetallic model.\<close>

definition bimetallic_solve :: "stmt list" where
  "bimetallic_solve =
     [Assign ''D'' (NoneLit),
      Try
        [Call (Some ''D'') ''m.maximize'' [pos (Name ''m.Ecoh''), kw ''tilim'' (IntLit 360), kw ''trelim'' (IntLit 4096)]]
        BareExcept
        [Print [StrLit fallback]]]"

text \<open>Bimetallic Nanocluster: the cell that processes the solution.\<close>

definition bimetallic_process :: "stmt list" where
  "bimetallic_process =
     [If (IsNotNone ''D'')
        [Call None ''D.toPDB'' [pos (StrLit ''result.pdb'')]]
        []]"

definition bimetallic :: "stmt list list" where
  "bimetallic =
     bimetallic_setup @ [bimetallic_first_solve] @ bimetallic_setup2 @ [bimetallic_solve, bimetallic_process]"

text \<open>Perovskite Design: the cells up to the model, one list per code cell.\<close>

definition perovskite_setup :: "stmt list list" where
  "perovskite_setup =
     [[],
      [Import ''numpy'',
       Import ''idaes.apps.matopt''],
      [Assign ''A'' (Expr ''4.0''),
       Assign ''B'' (Expr ''4.0''),
       Assign ''C'' (Expr ''4.0''),
       Call (Some ''Lat'') ''PerovskiteLattice'' [pos (Name ''A''), pos (Name ''B''), pos (Name ''C'')]],
      [Assign ''nUnitCellsOnEdge'' (IntLit 2),
       Call (Some ''S'') ''RectPrism'' [pos (Expr ''nUnitCellsOnEdge * A''), pos (Expr ''nUnitCellsOnEdge * B''), pos (Expr ''nUnitCellsOnEdge * C'')],
       Call None ''np.array'' [pos (Expr ''[-0.01, -0.01, -0.01]'')],
       Call None ''S.shift'' [pos (Expr ''np.array(...)'')],
       Call (Some ''T'') ''CubicTiling'' [pos (Name ''S'')]],
      [Call (Some ''Canv'') ''Canvas.fromLatticeAndTilingScan'' [pos (Name ''Lat''), pos (Name ''T'')],
       Call None ''Atom'' [pos (StrLit ''Ba'')],
       Call None ''Atom'' [pos (StrLit ''Fe'')],
       Call None ''Atom'' [pos (StrLit ''In'')],
       Call None ''Atom'' [pos (StrLit ''O'')],
       Assign ''Atoms'' (Expr ''[Atom(Ba), Atom(Fe), Atom(In), Atom(O)]'')],
      [Import ''tempfile'',
       Import ''zipfile'',
       Assign ''iDesiredConfs'' (Expr ''[394, 395, 396, 397, 398, 399, 400, 401, 68, ...''),
       With ''TemporaryDirectory'' ''ConfDir''
         [Call None ''ZipFile'' [pos (StrLit ''./confs.zip'')],
          Call None ''ZipFile.extractall'' [pos (Name ''ConfDir'')],
          Call (Some ''ConfDesigns'') ''loadFromPDBs'' [pos (Expr ''[str(i) + .pdb for i in iDesiredConfs]''), kw ''folder'' (Expr ''ConfDir + /confs/'')]],
       Assign ''Confs'' (Expr ''[Conf.Contents for Conf in ConfDesigns]'')],
      [Assign ''Sites'' (Expr ''[i for i in range(len(Canv))]''),
       For ''i in Sites''
         [If (CallCond ''Lat.isASite'' [pos (Expr ''Canv.Points[i]'')])
            [Assign ''ASites'' (Expr ''ASites + [i]'')]
            []],
       For ''i in Sites''
         [If (CallCond ''Lat.isBSite'' [pos (Expr ''Canv.Points[i]'')])
            [Assign ''BSites'' (Expr ''BSites + [i]'')]
            []],
       For ''i in Sites''
         [If (CallCond ''Lat.isOSite'' [pos (Expr ''Canv.Points[i]'')])
            [Assign ''OSites'' (Expr ''OSites + [i]'')]
            []],
       Assign ''pctLocalLB, pctLocalUB'' (Expr ''0, 1''),
       Assign ''pctGlobalLB, pctGlobalUB'' (Expr ''0.0, 0.3''),
       For ''i in OSites''
         [Call None ''Atom'' [pos (StrLit ''In'')]],
       Assign ''LocalBounds'' (Expr ''{(i, Atom(In)): (round(pctLocalLB * len(Canv....''),
       Assign ''GlobalLB'' (Expr ''round(pctGlobalLB * len(BSites))''),
       Assign ''GlobalUB'' (Expr ''round(pctGlobalUB * len(BSites))'')],
      [Call (Some ''m'') ''MatOptModel'' [pos (Name ''Canv''), pos (Name ''Atoms''), pos (Name ''Confs'')]],
      [Call None ''Atom'' [pos (StrLit ''Ba'')],
       Call None ''FixedTo'' [pos (IntLit 1), kw ''sites'' (Name ''ASites''), kw ''site_types'' (Expr ''[Atom(Ba)]'')],
       Call None ''Atom'' [pos (StrLit ''O'')],
       Call None ''FixedTo'' [pos (IntLit 1), kw ''sites'' (Name ''OSites''), kw ''site_types'' (Expr ''[Atom(O)]'')],
       Call None ''Atom'' [pos (StrLit ''Ba'')],
       Call None ''Atom'' [pos (StrLit ''O'')],
       Call None ''FixedTo'' [pos (IntLit 0), kw ''sites'' (Name ''BSites''), kw ''site_types'' (Expr ''[Atom(Ba), Atom(O)]'')],
       Call None ''FixedTo'' [pos (IntLit 1), kw ''sites'' (Name ''BSites'')]],
      [Call None ''SumSitesAndConfs'' [pos (Name ''m.Zic''), kw ''coefs'' (Expr ''1 / len(OSites)''), kw ''sites_to_sum'' (Name ''OSites'')],
       Call None ''EqualTo'' [pos (Expr ''SumSitesAndConfs(...)'')],
       Call None ''m.addGlobalDescriptor'' [pos (StrLit ''Activity''), kw ''rules'' (Expr ''EqualTo(...)'')],
       Call None ''Atom'' [pos (StrLit ''In'')],
       Call None ''SumSites'' [pos (Name ''m.Yik''), kw ''site_types'' (Expr ''[Atom(In)]''), kw ''sites_to_sum'' (Name ''BSites'')],
       Call None ''EqualTo'' [pos (Expr ''SumSites(...)'')],
       Call None ''m.addGlobalTypesDescriptor'' [pos (StrLit ''GlobalIndiumConc''), kw ''bounds'' (Expr ''(GlobalLB, GlobalUB)''), kw ''rules'' (Expr ''EqualTo(...)'')],
       Call None ''Atom'' [pos (StrLit ''In'')],
       Call None ''SumNeighborSites'' [pos (Name ''m.Yik''), kw ''sites'' (Name ''OSites''), kw ''site_types'' (Expr ''[Atom(In)]'')],
       Call None ''EqualTo'' [pos (Expr ''SumNeighborSites(...)'')],
       Call None ''m.addSitesTypesDescriptor'' [pos (StrLit ''LocalIndiumConc''), kw ''bounds'' (Name ''LocalBounds''), kw ''rules'' (Expr ''EqualTo(...)'')]]]"

text \<open>Perovskite Design: the cell that solves the model.\<close>

definition perovskite_solve :: "stmt list" where
  "perovskite_solve =
     [Assign ''D'' (NoneLit),
      Try
        [Call (Some ''D'') ''m.maximize'' [pos (Name ''m.Activity''), kw ''tilim'' (IntLit 360)]]
        BareExcept
        [Print [StrLit fallback]]]"

text \<open>Perovskite Design: the cell that processes the solution.\<close>

definition perovskite_process :: "stmt list" where
  "perovskite_process =
     [If (IsNotNone ''D'')
        [Call None ''m.Zic.keys'' [],
         For ''i, c in m.Zic.keys()''
           [If (DataCond ''m.Zic.values[i, c] > 0.5'')
              [Call None ''Atom'' [pos (StrLit ''S'')],
               Call None ''D.setContent'' [pos (Name ''i''), pos (Expr ''Atom(S)'')]]
              []],
         Call None ''D.toCFG'' [pos (StrLit ''result.cfg''), kw ''BBox'' (Name ''S'')]]
        []]"

definition perovskite :: "stmt list list" where
  "perovskite = perovskite_setup @ [perovskite_solve, perovskite_process]"

text \<open>RIPE, isothermal CSTR: the body of the refinement loop.\<close>

definition cstr_refine_body :: "stmt list" where
  "cstr_refine_body =
     [Print [StrLit ''Which concentrations violate error (True=violation) : '', Expr ''err > [noise * s for s in new_res]''],
      Assign ''results'' (Expr ''{}''),
      Assign ''ite'' (Expr ''ite + 1''),
      Call (Some ''new_cdata0'') ''np.zeros'' [pos (Expr ''[nd + ite, ns]'')],
      Call (Some ''new_cdata'') ''np.zeros'' [pos (Expr ''[nd + ite, ns]'')],
      Assign ''new_cdata0[:-1][:]'' (Expr ''cdata0[:][:]''),
      Assign ''new_cdata[:-1][:]'' (Expr ''cdata[:][:]''),
      Assign ''new_cdata0[-1][:]'' (Expr ''new_points[:]''),
      Call (Some ''res'') ''isotsim.sim'' [pos (Name ''new_points'')],
      For ''j in range(len(res))''
        [Assign ''new_cdata[-1][j]'' (Expr ''res[j]'')],
      Call None ''np.array'' [pos (Name ''new_cdata'')],
      Call (Some ''sigma'') ''np.multiply'' [pos (Expr ''noise**2''), pos (Expr ''np.array(new_cdata)'')],
      Call (Some ''results'') ''ripe.ripemodel'' [pos (Name ''new_cdata''), kw ''stoich'' (Name ''stoich''), kw ''mechanisms'' (Name ''rxn_mechs''), kw ''x0'' (Name ''new_cdata0''), kw ''sigma'' (Name ''sigma''), kw ''expand_output'' (BoolLit True)],
      Call (Some ''[new_points, err]'') ''ripe.ems'' [pos (Name ''results''), pos (Name ''isotsim.sim''), pos (Name ''lb_conc''), pos (Name ''ub_conc''), pos (IntLit 5), kw ''x'' (Name ''cdata''), kw ''x0'' (Name ''cdata0'')],
      Call (Some ''new_res'') ''isotsim.sim'' [pos (Name ''new_points'')],
      Assign ''cdata0'' (Name ''new_cdata0''),
      Assign ''cdata'' (Name ''new_cdata'')]"

text \<open>RIPE, isothermal CSTR: all cells.\<close>

definition cstr :: "stmt list list" where
  "cstr =
     [[],
      [Import ''pyomo.environ'',
       Import ''idaes.apps.ripe'',
       Import ''numpy'',
       Import ''random'',
       Import ''isotsim'',
       Call None ''np.random.seed'' [pos (IntLit 20)],
       Assign ''noise'' (Expr ''0.1''),
       Assign ''ns'' (IntLit 5),
       Assign ''lb_conc'' (Expr ''[0, 0, 0, 0, 0]''),
       Assign ''ub_conc'' (Expr ''[10, 10, 0, 0, 0]''),
       Assign ''cdata0'' (Expr ''[[1, 1, 0, 0, 0], [10, 10, 0, 0, 0]]''),
       Call (Some ''cdata'') ''isotsim.sim'' [pos (Name ''cdata0'')],
       Assign ''nd'' (Expr ''len(cdata0)''),
       Call None ''np.array'' [pos (Name ''cdata'')],
       Call (Some ''sigma'') ''np.multiply'' [pos (Expr ''noise**2''), pos (Expr ''np.array(cdata)'')]],
      [Assign ''stoich'' (Expr ''[[-1, -1, 1, 0, 0], ..., [-4, -5, 1, 1, 1]]'')],
      [Assign ''rxn_mechs'' (Expr ''[[all, massact]]'')],
      [Call (Some ''results'') ''ripe.ripemodel'' [pos (Name ''cdata''), kw ''stoich'' (Name ''stoich''), kw ''mechanisms'' (Name ''rxn_mechs''), kw ''x0'' (Name ''cdata0''), kw ''hide_output'' (BoolLit False), kw ''sigma'' (Name ''sigma''), kw ''deltaterm'' (IntLit 0), kw ''expand_output'' (BoolLit True)]],
      [Call (Some ''[new_points, err]'') ''ripe.ems'' [pos (Name ''results''), pos (Name ''isotsim.sim''), pos (Name ''lb_conc''), pos (Name ''ub_conc''), pos (IntLit 5), kw ''x'' (Name ''cdata''), kw ''x0'' (Name ''cdata0'')],
       Print [StrLit ''New Point'', Name ''new_points''],
       Print [StrLit ''Error'', Name ''err''],
       Call (Some ''new_res'') ''isotsim.sim'' [pos (Name ''new_points'')],
       Print [StrLit ''New Result'', Name ''new_res'']],
      [Assign ''ite'' (IntLit 0),
       While ''any(err > [2 * noise * s for s in new_res])'' cstr_refine_body],
      [Call (Some ''results'') ''ripe.ripemodel'' [pos (Name ''cdata''), kw ''stoich'' (Name ''stoich''), kw ''mechanisms'' (Name ''rxn_mechs''), kw ''x0'' (Name ''cdata0''), kw ''sigma'' (Name ''sigma''), kw ''expand_output'' (BoolLit False)],
       Print [Name ''results'']],
      []]"

text \<open>RIPE, chemical looping combustion kinetics: all cells.\<close>

definition clc :: "stmt list list" where
  "clc =
     [[],
      [Import ''idaes.apps.ripe'',
       Import ''numpy'',
       Import ''idaes.apps.ripe.mechs'',
       Call None ''np.random.seed'' [pos (IntLit 20)],
       Call (Some ''data'') ''np.genfromtxt'' [pos (StrLit ''clc.csv''), kw ''delimiter'' (StrLit '','')],
       Assign ''t'' (Expr ''data[:, 0]''),
       Assign ''xdata'' (Expr ''data[:, 1]''),
       Assign ''stoich'' (Expr ''[1]'')],
      [Assign ''clc_mechs'' (Expr ''[mechs.randomnuc, mechs.powerlawp5, mechs.pow...'')],
      [Call (Some ''results'') ''ripe.ripemodel'' [pos (Name ''xdata''), kw ''stoichiometry'' (Name ''stoich''), kw ''mechanisms'' (Name ''clc_mechs''), kw ''time'' (Name ''t'')]],
      []]"

definition matopt_notebooks :: "stmt list list list" where
  "matopt_notebooks = [nanowire, monometallic, surface, bifunctional, bimetallic, perovskite]"

definition ripe_notebooks :: "stmt list list list" where
  "ripe_notebooks = [cstr, clc]"

definition notebooks :: "stmt list list list" where
  "notebooks = matopt_notebooks @ ripe_notebooks"

section \<open>What a run can show\<close>

text \<open>
  The places of a script where an event can come from: its imports, its calls (with the
  arguments as written), its prints, its context managers. An event is an instance of its
  site, with the outcome the run met.
\<close>

datatype site = SImport string | SCall string args | SPrint "arg list" | SExit string

fun site_of :: "event \<Rightarrow> site" where
  "site_of (Imported m r) = SImport m"
| "site_of (Called f as r) = SCall f as"
| "site_of (Printed m) = SPrint m"
| "site_of (Exited c) = SExit c"

fun cond_sites :: "cond \<Rightarrow> site list" where
  "cond_sites (CallCond f as) = [SCall f as]"
| "cond_sites c = []"

fun sites :: "stmt \<Rightarrow> site list" where
  "sites (Import m) = [SImport m]"
| "sites (Assign x a) = []"
| "sites (Call tgt f as) = [SCall f as]"
| "sites (Print m) = [SPrint m]"
| "sites (Try body h hbody) = concat (map sites body) @ concat (map sites hbody)"
| "sites (If c thn els) = cond_sites c @ concat (map sites thn) @ concat (map sites els)"
| "sites (For src body) = concat (map sites body)"
| "sites (ForRange n body) = concat (map sites body)"
| "sites (While src body) = concat (map sites body)"
| "sites (With ctx x body) = SCall ctx [] # concat (map sites body) @ [SExit ctx]"

definition sites_of :: "stmt list list \<Rightarrow> site list" where
  "sites_of nb = concat (map sites (concat nb))"

text \<open>
  A state \<open>s'\<close> grows from \<open>s\<close> within the sites \<open>S\<close> when its trace is the
  trace of \<open>s\<close> followed by events of sites in \<open>S\<close>.
\<close>

definition grows :: "site set \<Rightarrow> state \<Rightarrow> state \<Rightarrow> bool" where
  "grows S s s' \<longleftrightarrow> (\<exists>d. trace s' = trace s @ d \<and> site_of ` set d \<subseteq> S)"

text \<open>A world in which every call succeeds, every test holds and every iteration has one element.\<close>

definition all_ok :: world where
  "all_ok = \<lparr>outcome = (\<lambda>k. Returns VObj), test = (\<lambda>k. True), count = (\<lambda>k. 1)\<rparr>"

section \<open>Solver options and file access\<close>

text \<open>The solver is invoked by \<^verbatim>\<open>m.maximize\<close>; the keyword arguments of a call are its options.\<close>

definition solver_calls :: "event list \<Rightarrow> args list" where
  "solver_calls t =
     List.map_filter
       (\<lambda>ev. case ev of
               Called f as r \<Rightarrow> if f = ''m.maximize'' then Some as else None
             | _ \<Rightarrow> None) t"

definition options :: "args \<Rightarrow> (string \<times> arg) list" where
  "options as = List.map_filter (\<lambda>ka. case fst ka of None \<Rightarrow> None | Some k \<Rightarrow> Some (k, snd ka)) as"

fun is_int :: "arg \<Rightarrow> bool" where
  "is_int (IntLit n) = True"
| "is_int a = False"

text \<open>A time limit or a tree memory limit, given as a number.\<close>

definition limit_option :: "string \<times> arg \<Rightarrow> bool" where
  "limit_option ka = ((fst ka = ''tilim'' \<or> fst ka = ''trelim'') \<and> is_int (snd ka))"

definition only_limits :: "args \<Rightarrow> bool" where
  "only_limits as = list_all limit_option (options as)"

text \<open>The options the notebooks do pass: the limits, and the name of the solver.\<close>

definition scalar_option :: "string \<times> arg \<Rightarrow> bool" where
  "scalar_option ka = (limit_option ka \<or> ka = (''solver'', StrLit ''cplex''))"

definition scalar_options :: "args \<Rightarrow> bool" where
  "scalar_options as =
     (list_all scalar_option (options as) \<and> list_ex (\<lambda>ka. fst ka = ''tilim'') (options as))"

fun solver_site_ok :: "site \<Rightarrow> bool" where
  "solver_site_ok (SCall f as) = (if f = ''m.maximize'' then scalar_options as else True)"
| "solver_site_ok st = True"

text \<open>
  The solver is invoked by the solve method of MatOpt and by the fit method of RIPE.
\<close>

definition solve_method :: "string \<Rightarrow> bool" where
  "solve_method f = (f = ''m.maximize'' \<or> f = ''ripe.ripemodel'')"

fun solve_call_site :: "site \<Rightarrow> bool" where
  "solve_call_site (SCall f as) = solve_method f"
| "solve_call_site st = False"

text \<open>
  File access. A design is written by its \<^verbatim>\<open>toPDB\<close> or \<^verbatim>\<open>toCFG\<close> method; the
  conformations are read by opening \<^verbatim>\<open>confs.zip\<close>, extracting it into a temporary
  directory and loading the PDB files there, and the directory is removed when its context
  is left; the kinetics data are read by \<^verbatim>\<open>np.genfromtxt\<close>. A string literal names a
  file when it has a dot in it.
\<close>

definition ends_with :: "string \<Rightarrow> string \<Rightarrow> bool" where
  "ends_with sfx xs = (length sfx \<le> length xs \<and> drop (length xs - length sfx) xs = sfx)"

fun names_file :: "string option \<times> arg \<Rightarrow> bool" where
  "names_file (k, StrLit n) = (CHR ''.'' \<in> set n)"
| "names_file (k, a) = False"

fun writes_as :: "string \<Rightarrow> args \<Rightarrow> bool" where
  "writes_as ext ((None, StrLit n) # rest) = (ends_with ext n \<and> \<not> list_ex names_file rest)"
| "writes_as ext as = False"

definition file_callee :: "string \<Rightarrow> bool" where
  "file_callee f =
     (ends_with ''.toPDB'' f \<or> ends_with ''.toCFG'' f \<or>
      f \<in> set [''TemporaryDirectory'', ''ZipFile'', ''ZipFile.extractall'', ''loadFromPDBs'',
                 ''np.genfromtxt''])"

text \<open>The places of a script that touch the file system.\<close>

fun file_site :: "site \<Rightarrow> bool" where
  "file_site (SCall f as) = file_callee f"
| "file_site (SExit c) = (c = ''TemporaryDirectory'')"
| "file_site st = False"

definition file_accesses :: "event list \<Rightarrow> site list" where
  "file_accesses t = filter file_site (map site_of t)"

text \<open>
  Every other function or method that a notebook calls, by the name of the function or
  method, whatever the module or object it is called on: the constructors of MatOpt, its
  rules and descriptors, the methods of its lattices, shapes, tilings, canvases, designs
  and models, the array functions of numpy, the simulator, the error maximization of
  RIPE, and \<^verbatim>\<open>help\<close>. They work on objects in memory. A function or method that is
  not listed here is not known to leave the file system alone.
\<close>

definition api_name :: "string \<Rightarrow> string" where
  "api_name f = rev (takeWhile (\<lambda>c. c \<noteq> CHR ''.'') (rev f))"

definition in_memory :: "string list" where
  "in_memory =
     [''Atom'', ''Canvas'', ''Design'', ''MatOptModel'',
      ''FCCLattice'', ''PerovskiteLattice'', ''alignedWith'', ''alignedWith111'',
      ''Cylinder'', ''RectPrism'', ''fromEdgesAndAngles'',
      ''CubicTiling'', ''PlanarTiling'', ''fromCylindricalShape'',
      ''fromLatticeAndShape'', ''fromLatticeAndTilingScan'',
      ''EqualTo'', ''FixedTo'', ''GreaterThan'', ''LessThan'', ''Implies'', ''ImpliesNeighbors'',
      ''ImpliesSiteCombination'', ''LinearExpr'', ''PiecewiseLinear'', ''SumBondTypes'',
      ''SumBonds'', ''SumConfs'', ''SumNeighborSites'', ''SumSites'', ''SumSitesAndConfs'',
      ''addLocation'', ''addShell'', ''addShells'', ''setNeighborsFromFunc'', ''makePeriodic'',
      ''getLayerSpacing'', ''getShellSpacing'', ''getUniqueLayerCount'',
      ''isASite'', ''isBSite'', ''isOSite'', ''setDesign'', ''setContent'', ''add'',
      ''shift'', ''scale'', ''replicateDesign'', ''keys'',
      ''addBondsDescriptor'', ''addGlobalDescriptor'', ''addGlobalTypesDescriptor'',
      ''addSitesDescriptor'', ''addSitesTypesDescriptor'',
      ''array'', ''zeros'', ''multiply'', ''seed'', ''sim'', ''ems'', ''help'']"

text \<open>
  What a call may be: a \<^verbatim>\<open>toPDB\<close> that writes a file named \<^verbatim>\<open>*.pdb\<close>, a
  \<^verbatim>\<open>toCFG\<close> that writes a file named \<^verbatim>\<open>*.cfg\<close>, one of the calls that read the
  conformations or the kinetics data, with the arguments they have in the notebooks, an
  invocation of the solver that is given no file, or a call that works in memory and is
  given no file.
\<close>

fun call_ok :: "site \<Rightarrow> bool" where
  "call_ok (SCall f as) =
     (if ends_with ''.toPDB'' f then writes_as ''.pdb'' as
      else if ends_with ''.toCFG'' f then writes_as ''.cfg'' as
      else if f = ''TemporaryDirectory'' then as = []
      else if f = ''ZipFile'' then as = [pos (StrLit ''./confs.zip'')]
      else if f = ''ZipFile.extractall'' then as = [pos (Name ''ConfDir'')]
      else if f = ''loadFromPDBs''
        then as = [pos (Expr ''[str(i) + .pdb for i in iDesiredConfs]''),
                   kw ''folder'' (Expr ''ConfDir + /confs/'')]
      else if f = ''np.genfromtxt''
        then as = [pos (StrLit ''clc.csv''), kw ''delimiter'' (StrLit '','')]
      else (solve_method f \<or> api_name f \<in> set in_memory) \<and> \<not> list_ex names_file as)"
| "call_ok st = True"

text \<open>
  The file accesses of each notebook, as they are written in it: those of the cells before
  the final solve, and those of the cell that processes the design.
\<close>

definition matopt_files :: "(stmt list list \<times> site list \<times> site list) list" where
  "matopt_files =
     [(nanowire,
       [SCall ''design.toPDB'' [pos (StrLit ''canvas.pdb'')]],
       [SCall ''optimalDesign.toPDB'' [pos (StrLit ''result.pdb'')],
        SCall ''periodicDesign.toPDB'' [pos (StrLit ''periodic_result.pdb'')]]),
      (monometallic,
       [SCall ''D.toPDB'' [pos (StrLit ''canvas_sites.pdb'')]],
       [SCall ''D.toPDB'' [pos (StrLit ''result.pdb'')]]),
      (surface,
       [SCall ''D.toPDB'' [pos (StrLit ''undefected.pdb'')],
        SCall ''D.toCFG'' [pos (StrLit ''undefected.cfg''), kw ''GS'' (Expr ''1.0''), kw ''BBox'' (Name ''S'')]],
       [SCall ''D.toPDB'' [pos (StrLit ''result.pdb'')],
        SCall ''PeriodicD.toCFG'' [pos (StrLit ''periodic_result.cfg''), kw ''BBox'' (Name ''PeriodicS'')]]),
      (bifunctional,
       [SCall ''D.toPDB'' [pos (StrLit ''canvas.pdb'')],
        SCall ''D.toCFG'' [pos (StrLit ''canvas.cfg''), kw ''BBox'' (Name ''S'')]],
       [SCall ''D.toCFG'' [pos (StrLit ''result.cfg''), kw ''BBox'' (Name ''S'')],
        SCall ''PeriodicD.toCFG'' [pos (StrLit ''periodic_result.cfg''), kw ''BBox'' (Name ''PeriodicS'')]]),
      (bimetallic,
       [],
       [SCall ''D.toPDB'' [pos (StrLit ''result.pdb'')]]),
      (perovskite,
       [SCall ''TemporaryDirectory'' [],
        SCall ''ZipFile'' [pos (StrLit ''./confs.zip'')],
        SCall ''ZipFile.extractall'' [pos (Name ''ConfDir'')],
        SCall ''loadFromPDBs''
          [pos (Expr ''[str(i) + .pdb for i in iDesiredConfs]''),
           kw ''folder'' (Expr ''ConfDir + /confs/'')],
        SExit ''TemporaryDirectory''],
       [SCall ''D.toCFG'' [pos (StrLit ''result.cfg''), kw ''BBox'' (Name ''S'')]])]"

definition ripe_files :: "(stmt list list \<times> site list \<times> site list) list" where
  "ripe_files =
     [(cstr, [], []),
      (clc,
       [SCall ''np.genfromtxt'' [pos (StrLit ''clc.csv''), kw ''delimiter'' (StrLit '','')]],
       [])]"

definition file_table :: "(stmt list list \<times> site list \<times> site list) list" where
  "file_table = matopt_files @ ripe_files"

text \<open>
  A statement whose file accesses do not depend on the run: a call, a context manager
  around calls, or a statement without any file access in it.
\<close>

fun is_call :: "stmt \<Rightarrow> bool" where
  "is_call (Call tgt f as) = True"
| "is_call c = False"

fun plain :: "stmt \<Rightarrow> bool" where
  "plain (Call tgt f as) = True"
| "plain (With ctx x body) = list_all is_call body"
| "plain c = list_all (\<lambda>st. \<not> file_site st) (sites c)"

definition file_sites :: "stmt list \<Rightarrow> site list" where
  "file_sites p = filter file_site (concat (map sites p))"

section \<open>Failures and their handlers\<close>

text \<open>
  The failure an event records: the exception of a failed import or of a failed call other
  than the solve call \<^verbatim>\<open>m.maximize\<close>.
\<close>

fun failure :: "event \<Rightarrow> exc option" where
  "failure (Called f as (Raises e)) = (if f = ''m.maximize'' then None else Some e)"
| "failure (Imported m (Raises e)) = Some e"
| "failure ev = None"

fun failures :: "event list \<Rightarrow> exc list" where
  "failures [] = []"
| "failures (ev # t) = (case failure ev of None \<Rightarrow> failures t | Some e \<Rightarrow> e # failures t)"

text \<open>
  A run leaves its failures uncaught when it has had none, or one, which is then the
  exception it ended with.
\<close>

definition uncaught :: "state \<Rightarrow> bool" where
  "uncaught s = (case failures (trace s) of [] \<Rightarrow> True | [e] \<Rightarrow> status s = Raised e | _ \<Rightarrow> False)"

fun solve_call :: "stmt \<Rightarrow> bool" where
  "solve_call (Call tgt f as) = (f = ''m.maximize'')"
| "solve_call c = False"

text \<open>Every \<^verbatim>\<open>try\<close> of a statement has nothing but solve calls in its body.\<close>

fun guards_solve_only :: "stmt \<Rightarrow> bool" where
  "guards_solve_only (Try body h hbody) =
     (list_all solve_call body \<and> list_all guards_solve_only hbody)"
| "guards_solve_only (If c thn els) =
     (list_all guards_solve_only thn \<and> list_all guards_solve_only els)"
| "guards_solve_only (For src body) = list_all guards_solve_only body"
| "guards_solve_only (ForRange n body) = list_all guards_solve_only body"
| "guards_solve_only (While src body) = list_all guards_solve_only body"
| "guards_solve_only (With ctx x body) = list_all guards_solve_only body"
| "guards_solve_only c = True"

text \<open>A world in which the \<open>k\<close>-th query fails with \<open>e\<close> and everything else succeeds.\<close>

definition fails_at :: "nat \<Rightarrow> exc \<Rightarrow> world" where
  "fails_at k e =
     \<lparr>outcome = (\<lambda>i. if i = k then Raises e else Returns VObj),
      test = (\<lambda>i. True), count = (\<lambda>i. 1)\<rparr>"

section \<open>The solve cell and the processing cell\<close>

text \<open>
  The final solve cell of every MatOpt notebook has one shape: the design variable is set
  to \<^verbatim>\<open>None\<close>, then assigned the result of \<^verbatim>\<open>m.maximize\<close> inside
  \<^verbatim>\<open>try\<close> with a bare \<^verbatim>\<open>except\<close> that prints the fallback message. The
  processing cell is one \<^verbatim>\<open>if\<close> on the design variable.
\<close>

definition guarded_solve :: "string \<Rightarrow> args \<Rightarrow> stmt list" where
  "guarded_solve v as =
     [Assign v NoneLit,
      Try [Call (Some v) ''m.maximize'' as] BareExcept [Print [StrLit fallback]]]"

fun process_body :: "stmt list \<Rightarrow> stmt list" where
  "process_body [If c thn els] = thn"
| "process_body p = []"

text \<open>
  Each MatOpt notebook, split at its final solve cell: the script before it, the variable
  that holds the design, the arguments of the solve call, the body of the processing cell.
\<close>

definition matopt_shapes :: "(stmt list list \<times> stmt list \<times> string \<times> args \<times> stmt list) list" where
  "matopt_shapes =
     [(nanowire, concat nanowire_setup, ''optimalDesign'',
       [pos (Name ''m.Ecoh''), kw ''tilim'' (IntLit 360), kw ''solver'' (StrLit ''cplex'')],
       process_body nanowire_process),
      (monometallic, concat monometallic_setup, ''D'',
       [pos (Name ''m.Ecoh''), kw ''tilim'' (IntLit 100)],
       process_body monometallic_process),
      (surface, concat surface_setup, ''D'',
       [pos (Name ''m.ActAndStab''), kw ''tilim'' (IntLit 360)],
       process_body surface_process),
      (bifunctional, concat bifunctional_setup, ''D'',
       [pos (Name ''m.ActAndStab''), kw ''tilim'' (IntLit 360)],
       process_body bifunctional_process),
      (bimetallic, concat bimetallic_setup @ bimetallic_first_solve @ concat bimetallic_setup2, ''D'',
       [pos (Name ''m.Ecoh''), kw ''tilim'' (IntLit 360), kw ''trelim'' (IntLit 4096)],
       process_body bimetallic_process),
      (perovskite, concat perovskite_setup, ''D'',
       [pos (Name ''m.Activity''), kw ''tilim'' (IntLit 360)],
       process_body perovskite_process)]"

definition shaped :: "stmt list list \<times> stmt list \<times> string \<times> args \<times> stmt list \<Rightarrow> bool" where
  "shaped x =
     (case x of (nb, pre, v, as, body) \<Rightarrow>
        concat nb = pre @ guarded_solve v as @ [If (IsNotNone v) body []])"

text \<open>The state after a solve call that returned \<open>r\<close>, and after one that raised \<open>e\<close>.\<close>

definition solved :: "string \<Rightarrow> args \<Rightarrow> val \<Rightarrow> state \<Rightarrow> state" where
  "solved v as r s =
     s\<lparr>env := (env s)(v \<mapsto> r),
       trace := trace s @ [Called ''m.maximize'' as (Returns r)],
       clock := Suc (clock s)\<rparr>"

definition unsolved :: "string \<Rightarrow> args \<Rightarrow> exc \<Rightarrow> state \<Rightarrow> state" where
  "unsolved v as e s =
     s\<lparr>env := (env s)(v \<mapsto> VNone),
       trace := trace s @ [Called ''m.maximize'' as (Raises e), Printed [StrLit fallback]],
       clock := Suc (clock s)\<rparr>"

fun solve_site :: "site \<Rightarrow> bool" where
  "solve_site (SCall f as) = (f = ''m.maximize'')"
| "solve_site st = False"

fun solve_outcomes :: "event list \<Rightarrow> resp list" where
  "solve_outcomes [] = []"
| "solve_outcomes (Called f as r # t) =
     (if f = ''m.maximize'' then r # solve_outcomes t else solve_outcomes t)"
| "solve_outcomes (ev # t) = solve_outcomes t"

text \<open>The last solve call of a trace returned a design.\<close>

definition solve_succeeded :: "event list \<Rightarrow> bool" where
  "solve_succeeded t =
     (case rev (solve_outcomes t) of Returns r # rs \<Rightarrow> r \<noteq> VNone | _ \<Rightarrow> False)"

definition result_files :: "string list" where
  "result_files = [''result.pdb'', ''periodic_result.pdb'', ''result.cfg'', ''periodic_result.cfg'']"

fun writes_result :: "site \<Rightarrow> bool" where
  "writes_result (SCall f ((None, StrLit n) # rest)) =
     ((ends_with ''.toPDB'' f \<or> ends_with ''.toCFG'' f) \<and> n \<in> set result_files)"
| "writes_result st = False"

text \<open>Processing a solution: relabelling sites with \<^verbatim>\<open>setContent\<close>, writing a result file.\<close>

fun processing_site :: "site \<Rightarrow> bool" where
  "processing_site (SCall f as) = (ends_with ''.setContent'' f \<or> writes_result (SCall f as))"
| "processing_site st = False"

definition processing :: "event \<Rightarrow> bool" where
  "processing ev = processing_site (site_of ev)"

text \<open>
  What the split of a notebook has to satisfy: nothing before the final solve cell
  processes a solution, and the processing cell does not solve.
\<close>

definition shape_clean :: "stmt list list \<times> stmt list \<times> string \<times> args \<times> stmt list \<Rightarrow> bool" where
  "shape_clean x =
     (case x of (nb, pre, v, as, body) \<Rightarrow>
        list_all (\<lambda>st. \<not> processing_site st) (concat (map sites pre)) \<and>
        list_all (\<lambda>st. \<not> solve_site st) (concat (map sites body)))"

text \<open>
  A trace answers the failed calls it \<open>must\<close> when each of them is followed at once
  by the fallback message.
\<close>

fun answered :: "(string \<Rightarrow> args \<Rightarrow> bool) \<Rightarrow> event list \<Rightarrow> bool" where
  "answered must [] = True"
| "answered must (Called f as (Raises e) # t) =
     (if must f as
      then (case t of Printed m # t' \<Rightarrow> m = [StrLit fallback] \<and> answered must t | _ \<Rightarrow> False)
      else answered must t)"
| "answered must (ev # t) = answered must t"

text \<open>The solve and fit methods: \<^verbatim>\<open>MatOptModel.maximize\<close> and \<^verbatim>\<open>ripe.ripemodel\<close>.\<close>

definition solve_or_fit :: "string \<Rightarrow> args \<Rightarrow> bool" where
  "solve_or_fit f as = (f = ''m.maximize'' \<or> f = ''ripe.ripemodel'')"

text \<open>The solve calls, but for those with arguments in \<open>quiet\<close>.\<close>

definition loud_solve :: "args list \<Rightarrow> string \<Rightarrow> args \<Rightarrow> bool" where
  "loud_solve quiet f as = (f = ''m.maximize'' \<and> as \<notin> set quiet)"

fun quiet_site :: "args list \<Rightarrow> site \<Rightarrow> bool" where
  "quiet_site quiet (SCall f as) = (\<not> loud_solve quiet f as)"
| "quiet_site quiet st = True"

text \<open>The arguments of the first solve call of the bimetallic notebook.\<close>

definition first_solve_args :: args where
  "first_solve_args = [pos (Name ''m.Ecoh''), kw ''tilim'' (IntLit 100)]"

definition quiet_of :: "stmt list list \<Rightarrow> args list" where
  "quiet_of nb = (if nb = bimetallic then [first_solve_args] else [])"

definition shape_quiet :: "stmt list list \<times> stmt list \<times> string \<times> args \<times> stmt list \<Rightarrow> bool" where
  "shape_quiet x =
     (case x of (nb, pre, v, as, body) \<Rightarrow>
        list_all (quiet_site (quiet_of nb)) (concat (map sites pre)))"

fun fit_site :: "site \<Rightarrow> bool" where
  "fit_site (SCall f as) = (f = ''ripe.ripemodel'')"
| "fit_site st = False"

section \<open>How often the solver and the fit are called\<close>

fun fit_outcomes :: "event list \<Rightarrow> resp list" where
  "fit_outcomes [] = []"
| "fit_outcomes (Called f as r # t) =
     (if f = ''ripe.ripemodel'' then r # fit_outcomes t else fit_outcomes t)"
| "fit_outcomes (ev # t) = fit_outcomes t"

text \<open>
  The modules through which a Python script starts threads or processes of its own. A site
  spawns when it imports one of them or calls into one.
\<close>

definition concurrency_modules :: "string list" where
  "concurrency_modules =
     [''threading'', ''_thread'', ''multiprocessing'', ''concurrent'', ''asyncio'', ''subprocess'']"

definition begins_with :: "string \<Rightarrow> string \<Rightarrow> bool" where
  "begins_with p xs = (take (length p) xs = p)"

fun spawns :: "site \<Rightarrow> bool" where
  "spawns (SImport m) = list_ex (\<lambda>p. begins_with p m) concurrency_modules"
| "spawns (SCall f as) = list_ex (\<lambda>p. begins_with (p @ ''.'') f) concurrency_modules"
| "spawns st = False"

section \<open>Control flow\<close>

text \<open>A statement without control flow of its own.\<close>

fun straight :: "stmt \<Rightarrow> bool" where
  "straight (Import m) = True"
| "straight (Assign x a) = True"
| "straight (Call tgt f as) = True"
| "straight (Print m) = True"
| "straight c = False"

text \<open>
  Worlds that differ in run-time data only: every call succeeds; the tests on data all fail,
  or fail but for the \<open>k\<close>-th query.
\<close>

definition tests_fail :: world where
  "tests_fail = \<lparr>outcome = (\<lambda>i. Returns VObj), test = (\<lambda>i. False), count = (\<lambda>i. 1)\<rparr>"

definition test_holds_at :: "nat \<Rightarrow> world" where
  "test_holds_at k = \<lparr>outcome = (\<lambda>i. Returns VObj), test = (\<lambda>i. i = k), count = (\<lambda>i. 1)\<rparr>"

text \<open>Two runs of a notebook that both complete and differ in the calls they make.\<close>

definition diverge :: "stmt list list \<Rightarrow> world \<Rightarrow> world \<Rightarrow> nat \<Rightarrow> bool" where
  "diverge nb w1 w2 fuel =
     (status (run w1 fuel nb) = Running \<and> status (run w2 fuel nb) = Running \<and>
      map site_of (trace (run w1 fuel nb)) \<noteq> map site_of (trace (run w2 fuel nb)))"

section \<open>The data arrays of the RIPE refinement loop\<close>

text \<open>
  The isothermal CSTR notebook keeps its data in two arrays, \<^verbatim>\<open>cdata0\<close> (initial
  concentrations) and \<^verbatim>\<open>cdata\<close> (simulated results), one row per data point and
  \<^verbatim>\<open>ns\<close> columns, and the weights \<^verbatim>\<open>sigma\<close>. An array is the list of its rows.
  Numbers are kept abstract. What \<^verbatim>\<open>isotsim.sim\<close>, \<^verbatim>\<open>ripe.ripemodel\<close> and
  \<^verbatim>\<open>ripe.ems\<close> answer in an iteration is given; a call that raises gives nothing.
\<close>

datatype refine_error = NumpyValueError | NumpyIndexError | LibraryError

record 'a refine_state =
  ite :: nat
  cdata0 :: "'a list list"
  cdata :: "'a list list"
  sigma :: "'a list list"
  new_points :: "'a list"
  err :: "'a list"
  new_res :: "'a list"

record 'a answers =
  sim_res :: "'a list option"
  fitted :: bool
  ems_res :: "('a list \<times> 'a list) option"
  sim_new_res :: "'a list option"

text \<open>\<^verbatim>\<open>np.zeros([r, c])\<close>.\<close>

definition zeros :: "nat \<Rightarrow> nat \<Rightarrow> 'a::zero list list" where
  "zeros r c = replicate r (replicate c 0)"

text \<open>
  \<^verbatim>\<open>target[:][:] = src\<close> for a target of \<open>r\<close> rows and \<open>c\<close> columns: numpy
  broadcasts a source with one row or one column, and raises ValueError for a source of
  any other shape, a ragged one included. The result is the new content of the target.
\<close>

definition broadcast2 :: "nat \<Rightarrow> nat \<Rightarrow> 'a list list \<Rightarrow> refine_error + 'a list list" where
  "broadcast2 r c src =
     (if src = [] then (if c = 0 then Inr (replicate r []) else Inl NumpyValueError)
      else if \<not> list_all (\<lambda>row. length row = length (hd src)) src then Inl NumpyValueError
      else if (length src = r \<or> length src = 1) \<and> (length (hd src) = c \<or> length (hd src) = 1)
      then Inr (map (\<lambda>row. if length row = c then row else replicate c (hd row))
                  (if length src = r then src else replicate r (hd src)))
      else Inl NumpyValueError)"

text \<open>\<^verbatim>\<open>target[:] = src\<close> for a row of \<open>c\<close> entries.\<close>

definition broadcast1 :: "nat \<Rightarrow> 'a list \<Rightarrow> refine_error + 'a list" where
  "broadcast1 c src =
     (if length src = c then Inr src
      else if length src = 1 then Inr (replicate c (hd src))
      else Inl NumpyValueError)"

text \<open>
  \<^verbatim>\<open>for j in range(len(res)): row[j] = res[j]\<close>: an index past the end of the row
  raises IndexError.
\<close>

definition set_items :: "'a list \<Rightarrow> 'a list \<Rightarrow> refine_error + 'a list" where
  "set_items row res =
     (if length res \<le> length row then Inr (res @ drop (length res) row)
      else Inl NumpyIndexError)"

text \<open>
  The three assignments into an array \<open>a\<close> of \<open>c\<close> columns:
  \<^verbatim>\<open>a[:-1][:] = src\<close>, \<^verbatim>\<open>a[-1][:] = src\<close> and the loop over \<^verbatim>\<open>a[-1][j]\<close>.
  \<^verbatim>\<open>a[-1]\<close> of an array with no rows raises IndexError.
\<close>

definition set_but_last :: "nat \<Rightarrow> 'a list list \<Rightarrow> 'a list list \<Rightarrow> refine_error + 'a list list" where
  "set_but_last c a src =
     (case broadcast2 (length a - 1) c src of
        Inl e \<Rightarrow> Inl e
      | Inr rows \<Rightarrow> Inr (rows @ drop (length a - 1) a))"

definition set_last :: "nat \<Rightarrow> 'a list list \<Rightarrow> 'a list \<Rightarrow> refine_error + 'a list list" where
  "set_last c a src =
     (if a = [] then Inl NumpyIndexError
      else case broadcast1 c src of
             Inl e \<Rightarrow> Inl e
           | Inr row \<Rightarrow> Inr (butlast a @ [row]))"

definition set_last_items :: "'a list list \<Rightarrow> 'a list \<Rightarrow> refine_error + 'a list list" where
  "set_last_items a res =
     (if a = [] then (if res = [] then Inr a else Inl NumpyIndexError)
      else case set_items (last a) res of
             Inl e \<Rightarrow> Inl e
           | Inr row \<Rightarrow> Inr (butlast a @ [row]))"

text \<open>\<^verbatim>\<open>np.multiply(noise**2, np.array(a))\<close>.\<close>

definition weights :: "'a::power \<Rightarrow> 'a list list \<Rightarrow> 'a list list" where
  "weights noise a = map (map (\<lambda>x. noise ^ 2 * x)) a"

text \<open>
  The body of the loop:
  \<^verbatim>\<open>
    ite += 1
    new_cdata0 = np.zeros([nd + ite, ns])
    new_cdata = np.zeros([nd + ite, ns])
    new_cdata0[:-1][:] = cdata0[:][:]
    new_cdata[:-1][:] = cdata[:][:]
    new_cdata0[-1][:] = new_points[:]
    res = isotsim.sim(new_points)[0]
    for j in range(len(res)):
        new_cdata[-1][j] = res[j]
    sigma = np.multiply(noise**2, np.array(new_cdata))
    results = ripe.ripemodel(new_cdata, ..., x0=new_cdata0, sigma=sigma, ...)
    [new_points, err] = ripe.ems(results, isotsim.sim, lb_conc, ub_conc, 5, x=cdata, x0=cdata0)
    new_res = isotsim.sim(new_points)[0]
    cdata0 = new_cdata0
    cdata = new_cdata
  \<close>
\<close>

definition refine_body ::
  "'a::{zero,power} \<Rightarrow> nat \<Rightarrow> nat \<Rightarrow> 'a answers \<Rightarrow> 'a refine_state \<Rightarrow> refine_error + 'a refine_state"
where
  "refine_body noise nd ns lib st =
     (let ite' = ite st + 1 in
      case set_but_last ns (zeros (nd + ite') ns) (cdata0 st) of
        Inl e \<Rightarrow> Inl e
      | Inr new_cdata0 \<Rightarrow>
      (case set_but_last ns (zeros (nd + ite') ns) (cdata st) of
        Inl e \<Rightarrow> Inl e
      | Inr new_cdata \<Rightarrow>
      (case set_last ns new_cdata0 (new_points st) of
        Inl e \<Rightarrow> Inl e
      | Inr new_cdata0 \<Rightarrow>
      (case sim_res lib of
        None \<Rightarrow> Inl LibraryError
      | Some res \<Rightarrow>
      (case set_last_items new_cdata res of
        Inl e \<Rightarrow> Inl e
      | Inr new_cdata \<Rightarrow>
      (if \<not> fitted lib then Inl LibraryError
       else
      (case ems_res lib of
        None \<Rightarrow> Inl LibraryError
      | Some pe \<Rightarrow>
      (case sim_new_res lib of
        None \<Rightarrow> Inl LibraryError
      | Some res' \<Rightarrow>
          Inr \<lparr>ite = ite',
               cdata0 = new_cdata0,
               cdata = new_cdata,
               sigma = weights noise new_cdata,
               new_points = fst pe,
               err = snd pe,
               new_res = res'\<rparr>))))))))"

text \<open>
  The test of the loop, \<^verbatim>\<open>any(err > [2 * noise * s for s in new_res])\<close>: an
  elementwise comparison, which broadcasts a single element and raises ValueError for
  other lengths that differ.
\<close>

definition loop_test :: "'a::{numeral,times,ord} \<Rightarrow> 'a refine_state \<Rightarrow> refine_error + bool" where
  "loop_test noise st =
     (let xs = err st; ys = map (\<lambda>s. 2 * noise * s) (new_res st) in
      if length xs = length ys then Inr (list_ex (\<lambda>xy. fst xy > snd xy) (zip xs ys))
      else if length xs = 1 then Inr (list_ex (\<lambda>y. hd xs > y) ys)
      else if length ys = 1 then Inr (list_ex (\<lambda>x. x > hd ys) xs)
      else Inl NumpyValueError)"

text \<open>
  The loop, with fuel since nothing bounds the number of its iterations; the library's
  answers in the \<open>i\<close>-th iteration are \<open>lib i\<close>. Without fuel left the result is \<open>None\<close>.
\<close>

fun refine ::
  "nat \<Rightarrow> 'a::{zero,power,numeral,ord} \<Rightarrow> nat \<Rightarrow> nat \<Rightarrow> (nat \<Rightarrow> 'a answers) \<Rightarrow> 'a refine_state \<Rightarrow>
     (refine_error + 'a refine_state) option"
where
  "refine 0 noise nd ns lib st = None"
| "refine (Suc fuel) noise nd ns lib st =
     (case loop_test noise st of
        Inl e \<Rightarrow> Some (Inl e)
      | Inr False \<Rightarrow> Some (Inr st)
      | Inr True \<Rightarrow>
          (case refine_body noise nd ns (lib (ite st)) st of
             Inl e \<Rightarrow> Some (Inl e)
           | Inr st' \<Rightarrow> refine fuel noise nd ns lib st'))"

text \<open>The state when the body has been executed \<open>k\<close> times.\<close>

fun iterations ::
  "nat \<Rightarrow> 'a::{zero,power} \<Rightarrow> nat \<Rightarrow> nat \<Rightarrow> (nat \<Rightarrow> 'a answers) \<Rightarrow> 'a refine_state \<Rightarrow>
     refine_error + 'a refine_state"
where
  "iterations 0 noise nd ns lib st = Inr st"
| "iterations (Suc k) noise nd ns lib st =
     (case iterations k noise nd ns lib st of
        Inl e \<Rightarrow> Inl e
      | Inr st' \<Rightarrow> refine_body noise nd ns (lib (ite st')) st')"

text \<open>
  The state the loop starts from: \<open>nd\<close> data points of \<open>ns\<close> entries each in both
  arrays, the weights computed from \<^verbatim>\<open>cdata\<close>, and a new point of \<open>ns\<close> entries from
  the first call of \<^verbatim>\<open>ripe.ems\<close>.
\<close>

definition rectangular :: "nat \<Rightarrow> nat \<Rightarrow> 'a list list \<Rightarrow> bool" where
  "rectangular r c a = (length a = r \<and> list_all (\<lambda>row. length row = c) a)"

definition starts :: "'a::power \<Rightarrow> nat \<Rightarrow> nat \<Rightarrow> 'a refine_state \<Rightarrow> bool" where
  "starts noise nd ns st =
     (ite st = 0 \<and> 0 < nd \<and> rectangular nd ns (cdata0 st) \<and> rectangular nd ns (cdata st) \<and>
      sigma st = weights noise (cdata st) \<and> length (new_points st) = ns)"

text \<open>Answers of the library that are there and have \<open>ns\<close> entries.\<close>

definition answers_fit :: "nat \<Rightarrow> 'a answers \<Rightarrow> bool" where
  "answers_fit ns lib =
     (fitted lib \<and>
      (case sim_res lib of None \<Rightarrow> False | Some res \<Rightarrow> length res = ns) \<and>
      (case ems_res lib of None \<Rightarrow> False | Some pe \<Rightarrow> length (fst pe) = ns) \<and>
      sim_new_res lib \<noteq> None)"

section \<open>The phases of a run\<close>





















text \<open>
  The script of a RIPE notebook up to its first fit, when that is a statement of a cell
  and not inside a loop or branch.
\<close>

fun is_fit :: "stmt \<Rightarrow> bool" where
  "is_fit (Call tgt f as) = (f = ''ripe.ripemodel'')"
| "is_fit c = False"


section \<open>Properties of the site-index lists\<close>

lemma comprehension_total:
  "\<forall>x \<in> set xs. \<exists>b. c x = Inr b \<Longrightarrow>
     comprehension c xs = Inr (filter (\<lambda>x. c x = Inr True) xs)"
  by (induction xs) auto

lemma enumerate_filter_sorted:
  "sorted_wrt (<) (map fst (filter P (enumerate n xs)))"
proof -
  have "sorted_wrt (\<lambda>a b. fst a < fst b) (enumerate n xs)"
    by (induction xs arbitrary: n) (auto simp: in_set_enumerate_eq)
  then have "sorted_wrt (\<lambda>a b. fst a < fst b) (filter P (enumerate n xs))"
    by (rule sorted_wrt_filter)
  then show ?thesis by (simp add: sorted_wrt_map)
qed

lemma enumerate_filter_set:
  "set (map fst (filter P (enumerate 0 xs))) = {i. i < length xs \<and> P (i, xs ! i)}"
proof (rule set_eqI)
  fix i
  show "i \<in> set (map fst (filter P (enumerate 0 xs))) \<longleftrightarrow>
          i \<in> {i. i < length xs \<and> P (i, xs ! i)}"
  proof
    assume "i \<in> set (map fst (filter P (enumerate 0 xs)))"
    then obtain ip where ip: "ip \<in> set (enumerate 0 xs)" "P ip" "fst ip = i"
      by auto
    from ip(1) have "fst ip < length xs" "snd ip = xs ! fst ip"
      by (simp_all add: in_set_enumerate_eq)
    with ip(2,3) have "i < length xs \<and> P (i, xs ! i)"
      by (metis prod.collapse)
    then show "i \<in> {i. i < length xs \<and> P (i, xs ! i)}" by simp
  next
    assume "i \<in> {i. i < length xs \<and> P (i, xs ! i)}"
    then have a: "i < length xs" "P (i, xs ! i)" by simp_all
    from a(1) have "(i, xs ! i) \<in> set (enumerate 0 xs)"
      by (simp add: in_set_enumerate_eq)
    with a(2) have "(i, xs ! i) \<in> set (filter P (enumerate 0 xs))" by simp
    then have "fst (i, xs ! i) \<in> fst ` set (filter P (enumerate 0 xs))"
      by (rule imageI)
    then show "i \<in> set (map fst (filter P (enumerate 0 xs)))" by simp
  qed
qed

lemma CoreLayers_total:
  assumes "\<forall>p \<in> set Points. 2 \<le> length p"
  shows "CoreLayers Points coreRatio radius =
           Inr (map fst (filter (\<lambda>ip. in_core coreRatio radius ip = Inr True) (enumerate 0 Points)))"
proof -
  have "\<forall>ip \<in> set (enumerate 0 Points). \<exists>b. in_core coreRatio radius ip = Inr b"
  proof
    fix ip assume "ip \<in> set (enumerate 0 Points)"
    then have "fst ip < length Points" "snd ip = Points ! fst ip"
      by (simp_all add: in_set_enumerate_eq)
    then have "snd ip \<in> set Points"
      by simp
    with assms have "2 \<le> length (snd ip)" by blast
    then show "\<exists>b. in_core coreRatio radius ip = Inr b"
      by (auto simp: in_core_def item_def)
  qed
  then have "comprehension (in_core coreRatio radius) (enumerate 0 Points) =
      Inr (filter (\<lambda>ip. in_core coreRatio radius ip = Inr True) (enumerate 0 Points))"
    by (rule comprehension_total)
  then show ?thesis
    by (simp add: CoreLayers_def)
qed

lemma in_core_True:
  "2 \<le> length p \<Longrightarrow>
     in_core coreRatio radius (i, p) = Inr True \<longleftrightarrow>
       (p ! 0) ^ 2 + (p ! 1) ^ 2 < (coreRatio * radius) ^ 2"
  by (cases p) (auto simp: in_core_def item_def)

lemma CanvTwoBotLayers_total:
  assumes "n \<le> length Points" and "\<forall>i < n. 3 \<le> length (Points ! i)"
  shows "CanvTwoBotLayers n Points c spacing =
           Inr (filter (\<lambda>i. in_two_bot Points c spacing i = Inr True) [0..<n])"
proof -
  have "\<forall>i \<in> set [0..<n]. \<exists>b. in_two_bot Points c spacing i = Inr b"
    using assms by (auto simp: in_two_bot_def item_def)
  then have "comprehension (in_two_bot Points c spacing) [0..<n] =
      Inr (filter (\<lambda>i. in_two_bot Points c spacing i = Inr True) [0..<n])"
    by (rule comprehension_total)
  then show ?thesis
    by (simp add: CanvTwoBotLayers_def)
qed

lemma in_two_bot_True:
  "i < length Points \<Longrightarrow> 3 \<le> length (Points ! i) \<Longrightarrow>
     in_two_bot Points c spacing i = Inr True \<longleftrightarrow> Points ! i ! 2 < c * spacing"
  by (simp add: in_two_bot_def item_def)

text \<open>
  C9. In the nanowire notebook, on a canvas whose points have their x and y coordinates,
  \<open>CoreLayers\<close> and \<open>CanvasMinusCoreLayers\<close> partition the site indices
  \<open>0 .. len(canvas.Points) - 1\<close>: every index is in exactly one of the two lists, both
  lists are strictly increasing, and \<open>CoreLayers\<close> holds exactly the sites with
  \<open>p[0]^2 + p[1]^2 < (coreRatio * radius)^2\<close>. The same holds for
  \<open>CanvTwoBotLayers\<close> and \<open>CanvMinusTwoBotLayers\<close> of the surface-design notebook
  over \<open>range(len(Canv))\<close>, with the test \<open>Points[i][2] < 1.5 * spacing\<close>.
\<close>

theorem site_lists_partition:
  fixes Points SPoints :: "'a::{plus,power,ord} list list"
  assumes "\<forall>p \<in> set Points. 2 \<le> length p"
    and "n \<le> length SPoints" and "\<forall>i < n. 3 \<le> length (SPoints ! i)"
  shows "(\<exists>core rest.
            CoreLayers Points coreRatio radius = Inr core \<and>
            rest = CanvasMinusCoreLayers Points core \<and>
            (\<forall>i < length Points. (i \<in> set core) \<noteq> (i \<in> set rest)) \<and>
            set core \<union> set rest = {..<length Points} \<and>
            sorted_wrt (<) core \<and> sorted_wrt (<) rest \<and>
            set core = {i. i < length Points \<and>
                           (Points ! i ! 0) ^ 2 + (Points ! i ! 1) ^ 2 < (coreRatio * radius) ^ 2})
       \<and> (\<exists>two_bot rest.
            CanvTwoBotLayers n SPoints c spacing = Inr two_bot \<and>
            rest = CanvMinusTwoBotLayers n two_bot \<and>
            (\<forall>i < n. (i \<in> set two_bot) \<noteq> (i \<in> set rest)) \<and>
            set two_bot \<union> set rest = {..<n} \<and>
            sorted_wrt (<) two_bot \<and> sorted_wrt (<) rest \<and>
            set two_bot = {i. i < n \<and> SPoints ! i ! 2 < c * spacing})"
proof (rule conjI)
  let ?core = "map fst (filter (\<lambda>ip. in_core coreRatio radius ip = Inr True) (enumerate 0 Points))"
  let ?rest = "CanvasMinusCoreLayers Points ?core"
  have c: "CoreLayers Points coreRatio radius = Inr ?core"
    using assms(1) by (rule CoreLayers_total)
  have sc: "set ?core = {i. i < length Points \<and>
              (Points ! i ! 0) ^ 2 + (Points ! i ! 1) ^ 2 < (coreRatio * radius) ^ 2}"
  proof -
    have "in_core coreRatio radius (i, Points ! i) = Inr True \<longleftrightarrow>
            (Points ! i ! 0) ^ 2 + (Points ! i ! 1) ^ 2 < (coreRatio * radius) ^ 2"
      if "i < length Points" for i
      using assms(1) that by (simp add: in_core_True)
    then show ?thesis
      by (auto simp only: enumerate_filter_set mem_Collect_eq)
  qed
  have sr: "set ?rest = {i. i < length Points \<and> i \<notin> set ?core}"
    unfolding CanvasMinusCoreLayers_def by (simp only: enumerate_filter_set fst_conv)
  have p1: "\<forall>i < length Points. (i \<in> set ?core) \<noteq> (i \<in> set ?rest)"
    using sr by blast
  have p2: "set ?core \<union> set ?rest = {..<length Points}"
    using sr sc by blast
  have p3: "sorted_wrt (<) ?core" by (rule enumerate_filter_sorted)
  have p4: "sorted_wrt (<) ?rest"
    unfolding CanvasMinusCoreLayers_def by (rule enumerate_filter_sorted)
  show "\<exists>core rest.
            CoreLayers Points coreRatio radius = Inr core \<and>
            rest = CanvasMinusCoreLayers Points core \<and>
            (\<forall>i < length Points. (i \<in> set core) \<noteq> (i \<in> set rest)) \<and>
            set core \<union> set rest = {..<length Points} \<and>
            sorted_wrt (<) core \<and> sorted_wrt (<) rest \<and>
            set core = {i. i < length Points \<and>
                           (Points ! i ! 0) ^ 2 + (Points ! i ! 1) ^ 2 < (coreRatio * radius) ^ 2}"
    by (intro exI [of _ ?core] exI [of _ ?rest] conjI c refl p1 p2 p3 p4 sc)
next
  let ?bot = "filter (\<lambda>i. in_two_bot SPoints c spacing i = Inr True) [0..<n]"
  let ?rest = "CanvMinusTwoBotLayers n ?bot"
  have c: "CanvTwoBotLayers n SPoints c spacing = Inr ?bot"
    using assms(2,3) by (rule CanvTwoBotLayers_total)
  have sc: "set ?bot = {i. i < n \<and> SPoints ! i ! 2 < c * spacing}"
    using assms(2,3) by (auto simp: in_two_bot_True)
  have sr: "set ?rest = {i. i < n \<and> i \<notin> set ?bot}"
    unfolding CanvMinusTwoBotLayers_def by auto
  have p1: "\<forall>i < n. (i \<in> set ?bot) \<noteq> (i \<in> set ?rest)"
    using sr by blast
  have p2: "set ?bot \<union> set ?rest = {..<n}"
    using sr sc by blast
  have s0: "sorted_wrt (<) [0..<n]"
    by (simp add: sorted_wrt_iff_nth_less)
  have p3: "sorted_wrt (<) ?bot" using s0 by (rule sorted_wrt_filter)
  have p4: "sorted_wrt (<) ?rest"
    unfolding CanvMinusTwoBotLayers_def using s0 by (rule sorted_wrt_filter)
  show "\<exists>two_bot rest.
            CanvTwoBotLayers n SPoints c spacing = Inr two_bot \<and>
            rest = CanvMinusTwoBotLayers n two_bot \<and>
            (\<forall>i < n. (i \<in> set two_bot) \<noteq> (i \<in> set rest)) \<and>
            set two_bot \<union> set rest = {..<n} \<and>
            sorted_wrt (<) two_bot \<and> sorted_wrt (<) rest \<and>
            set two_bot = {i. i < n \<and> SPoints ! i ! 2 < c * spacing}"
    by (intro exI [of _ ?bot] exI [of _ ?rest] conjI c refl p1 p2 p3 p4 sc)
qed

theorem site_lists_partition_witness:
  "CoreLayers [[0, 0, 0], [3, 0, 1], [1, 1, 2]] (1::int) 2 = Inr [0, 2] \<and>
   CanvasMinusCoreLayers [[0, 0, 0], [3, 0, 1], [1, 1, 2::int]] [0, 2] = [1] \<and>
   CanvTwoBotLayers 2 [[0, 0, 0], [0, 0, 5]] (1::int) 2 = Inr [0] \<and>
   CanvMinusTwoBotLayers 2 [0] = [1]"
proof -
  have h1: "\<forall>p \<in> set [[0, 0, 0], [3, 0, 1], [1, 1, 2::int]]. 2 \<le> length p"
    by simp
  have h2: "2 \<le> length [[0, 0, 0], [0, 0, 5::int]]"
    by simp
  have h3: "\<forall>i < 2. 3 \<le> length ([[0, 0, 0], [0, 0, 5::int]] ! i)"
    by (simp add: less_Suc_eq numeral_2_eq_2)
  have v1: "CoreLayers [[0, 0, 0], [3, 0, 1], [1, 1, 2]] (1::int) 2 = Inr [0, 2]"
    by code_simp
  have v2: "CanvasMinusCoreLayers [[0, 0, 0], [3, 0, 1], [1, 1, 2::int]] [0, 2] = [1]"
    by code_simp
  have v3: "CanvTwoBotLayers 2 [[0, 0, 0], [0, 0, 5]] (1::int) 2 = Inr [0]"
    by code_simp
  have v4: "CanvMinusTwoBotLayers 2 [0] = [1]"
    by code_simp
  show ?thesis
    using site_lists_partition [OF h1 h2 h3, of 1 2 1 2] v1 v2 v3 v4
    by simp
qed

section \<open>Properties of runs\<close>

lemma execs_stopped: "status s \<noteq> Running \<Longrightarrow> execs \<omega> fuel p s = s"
  by (cases p) simp_all

lemma repeat_stopped: "status s \<noteq> Running \<Longrightarrow> repeat \<omega> fuel n body s = s"
  by (cases n) simp_all

lemma execs_append: "execs \<omega> fuel (xs @ ys) s = execs \<omega> fuel ys (execs \<omega> fuel xs s)"
  by (induction xs arbitrary: s) (simp_all add: execs_stopped)

lemma grows_refl: "grows S s s"
  by (simp add: grows_def)

lemma grows_same: "trace s' = trace s \<Longrightarrow> grows S s s'"
  by (simp add: grows_def)

lemma grows_trans: "grows S s s1 \<Longrightarrow> grows S s1 s2 \<Longrightarrow> grows S s s2"
proof -
  assume "grows S s s1" and "grows S s1 s2"
  then obtain d1 d2 where "trace s1 = trace s @ d1" "site_of ` set d1 \<subseteq> S"
    "trace s2 = trace s1 @ d2" "site_of ` set d2 \<subseteq> S"
    unfolding grows_def by blast
  then have "trace s2 = trace s @ (d1 @ d2) \<and> site_of ` set (d1 @ d2) \<subseteq> S"
    by (simp add: image_Un)
  then show ?thesis unfolding grows_def by blast
qed

lemma grows_mono: "grows S s s' \<Longrightarrow> S \<subseteq> S' \<Longrightarrow> grows S' s s'"
  by (auto simp: grows_def)

lemma grows_one: "trace s' = trace s @ [ev] \<Longrightarrow> site_of ev \<in> S \<Longrightarrow> grows S s s'"
  by (simp add: grows_def)

lemma grows_do_call: "SCall f as \<in> S \<Longrightarrow> grows S s (do_call \<omega> tgt f as s)"
  by (cases tgt) (auto simp: do_call_def emit_def raise_def intro!: grows_one split: resp.splits)

lemma grows_do_import: "SImport m \<in> S \<Longrightarrow> grows S s (do_import \<omega> m s)"
  by (auto simp: do_import_def emit_def raise_def intro!: grows_one split: resp.splits)

lemma grows_eval_cond:
  assumes "set (cond_sites c) \<subseteq> S"
  shows "grows S s (snd (eval_cond \<omega> c s))"
proof (cases c)
  case (CallCond f as)
  then show ?thesis
    using assms by (auto simp: emit_def raise_def intro!: grows_one split: resp.splits)
qed (auto simp: raise_def tick_def intro!: grows_same split: option.splits val.splits)

lemma exec_grows:
  "grows (set (sites c)) s (exec \<omega> fuel c s)"
  "grows (set (concat (map sites cs))) s (execs \<omega> fuel cs s)"
  "grows (set (concat (map sites body))) s (repeat \<omega> fuel n body s)"
proof (induction \<omega> fuel c s and \<omega> fuel cs s and \<omega> fuel n body s rule: exec_execs_repeat.induct)
  case (1 \<omega> fuel m s)
  then show ?case by (simp add: grows_do_import)
next
  case (2 \<omega> fuel x a s)
  then show ?case by (simp add: grows_same)
next
  case (3 \<omega> fuel tgt f as s)
  then show ?case by (simp add: grows_do_call)
next
  case (4 \<omega> fuel m s)
  then show ?case by (simp add: grows_one)
next
  case (5 \<omega> fuel body h hbody s)
  let ?S = "set (sites (Try body h hbody))"
  let ?s1 = "execs \<omega> fuel body s"
  have a: "grows ?S s ?s1"
    using 5(1) by (rule grows_mono) auto
  show ?case
  proof (cases "status ?s1")
    case (Raised e)
    show ?thesis
    proof (cases "catches h e")
      case True
      have "grows ?S (?s1\<lparr>status := Running\<rparr>) (execs \<omega> fuel hbody (?s1\<lparr>status := Running\<rparr>))"
        using 5(2) [OF refl Raised True] by (rule grows_mono) auto
      moreover have "grows ?S ?s1 (?s1\<lparr>status := Running\<rparr>)"
        by (simp add: grows_same)
      ultimately show ?thesis
        using a Raised True by (auto intro: grows_trans)
    next
      case False
      then show ?thesis using a Raised by simp
    qed
  qed (use a in simp_all)
next
  case (6 \<omega> fuel c thn els s)
  let ?S = "set (sites (If c thn els))"
  obtain b s1 where e: "eval_cond \<omega> c s = (b, s1)" by (cases "eval_cond \<omega> c s")
  have a: "grows ?S s s1"
    using grows_eval_cond [of c ?S s \<omega>] e by simp
  show ?case
  proof (cases b)
    case True
    have "grows ?S s1 (execs \<omega> fuel thn s1)"
      using 6(1) [OF e [symmetric] True] by (rule grows_mono) auto
    then show ?thesis using a e True by (auto intro: grows_trans)
  next
    case False
    have "grows ?S s1 (execs \<omega> fuel els s1)"
      using 6(2) [OF e [symmetric]] False by (auto intro: grows_mono)
    then show ?thesis using a e False by (auto intro: grows_trans)
  qed
next
  case (7 \<omega> fuel src body s)
  have "grows (set (sites (For src body))) s (tick s)"
    by (simp add: grows_same tick_def)
  then show ?case using 7 by (auto intro: grows_trans)
next
  case (8 \<omega> fuel n body s)
  then show ?case by simp
next
  case (9 \<omega> src body s)
  then show ?case by (simp add: grows_same)
next
  case (10 \<omega> fuel src body s)
  let ?S = "set (sites (While src body))"
  show ?case
  proof (cases "test \<omega> (clock s)")
    case True
    let ?s1 = "execs \<omega> fuel body (tick s)"
    have a: "grows ?S s (tick s)" by (simp add: grows_same tick_def)
    have b: "grows ?S (tick s) ?s1" using 10(1) [OF True] by simp
    show ?thesis
    proof (cases "status ?s1 = Running")
      case r: True
      have "grows ?S ?s1 (exec \<omega> fuel (While src body) ?s1)"
        using 10(2) [OF True refl r] by simp
      then show ?thesis using a b True r by (auto intro: grows_trans)
    next
      case False
      then show ?thesis using a b True by (auto intro: grows_trans)
    qed
  next
    case False
    then show ?thesis by (simp add: grows_same tick_def)
  qed
next
  case (11 \<omega> fuel ctx x body s)
  let ?S = "set (sites (With ctx x body))"
  show ?case
  proof (cases "outcome \<omega> (clock s)")
    case (Raises e)
    then show ?thesis by (auto simp: emit_def raise_def intro!: grows_one)
  next
    case (Returns v)
    let ?s0 = "bind_result (Some x) v (emit (Called ctx [] (Returns v)) s)"
    let ?s1 = "execs \<omega> fuel body ?s0"
    have a: "grows ?S s ?s0" by (auto simp: emit_def intro!: grows_one)
    have b: "grows ?S ?s0 ?s1"
      using 11 [OF Returns] by (rule grows_mono) auto
    have c: "grows ?S ?s1 (?s1\<lparr>trace := trace ?s1 @ [Exited ctx]\<rparr>)"
      by (auto intro!: grows_one)
    show ?thesis using a b c Returns by (auto simp: Let_def intro: grows_trans)
  qed
next
  case (12 \<omega> fuel s)
  then show ?case by (simp add: grows_refl)
next
  case (13 \<omega> fuel c cs s)
  show ?case
  proof (cases "status s = Running")
    case True
    have "grows (set (concat (map sites (c # cs)))) s (exec \<omega> fuel c s)"
      using 13(1) [OF True] by (rule grows_mono) auto
    moreover have "grows (set (concat (map sites (c # cs)))) (exec \<omega> fuel c s) (execs \<omega> fuel cs (exec \<omega> fuel c s))"
      using 13(2) [OF True] by (rule grows_mono) auto
    ultimately show ?thesis using True by (auto intro: grows_trans)
  next
    case False
    then show ?thesis by (simp add: grows_refl)
  qed
next
  case (14 \<omega> fuel body s)
  then show ?case by (simp add: grows_refl)
next
  case (15 \<omega> fuel n body s)
  show ?case
  proof (cases "status s = Running")
    case True
    then show ?thesis using 15 by (auto intro: grows_trans)
  next
    case False
    then show ?thesis by (simp add: grows_refl)
  qed
qed


lemma run_grows: "grows (set (sites_of nb)) init (run \<omega> fuel nb)"
  unfolding run_def sites_of_def by (rule exec_grows(2))

lemma run_sites: "site_of ` set (trace (run \<omega> fuel nb)) \<subseteq> set (sites_of nb)"
  using run_grows [of nb \<omega> fuel] by (auto simp: grows_def init_def)

text \<open>A script without control flow performs its sites in order.\<close>

lemma straight_step:
  assumes "straight c" and "status s = Running"
  shows "\<exists>d. trace (exec \<omega> fuel c s) = trace s @ d \<and> map site_of d = sites c"
proof (cases c)
  case (Import m)
  then show ?thesis
    by (cases "outcome \<omega> (clock s)") (simp_all add: do_import_def emit_def raise_def)
next
  case (Call tgt f as)
  then show ?thesis
    by (cases "outcome \<omega> (clock s)"; cases tgt)
      (simp_all add: do_call_def emit_def raise_def)
qed (use assms in simp_all)

lemma straight_trace:
  assumes "list_all straight p" and "status s = Running"
  shows "\<exists>d n. trace (execs \<omega> fuel p s) = trace s @ d \<and>
           map site_of d = take n (concat (map sites p)) \<and>
           (status (execs \<omega> fuel p s) = Running \<longrightarrow> map site_of d = concat (map sites p))"
  using assms
proof (induction p arbitrary: s)
  case Nil
  then show ?case by simp
next
  case (Cons c cs)
  from Cons.prems have "\<exists>d. trace (exec \<omega> fuel c s) = trace s @ d \<and> map site_of d = sites c"
    by (simp add: straight_step)
  then obtain d0 where d0: "trace (exec \<omega> fuel c s) = trace s @ d0"
    "map site_of d0 = sites c"
    by blast
  show ?case
  proof (cases "status (exec \<omega> fuel c s) = Running")
    case True
    from Cons.prems(1) have "list_all straight cs" by simp
    from Cons.IH [OF this True]
    obtain d n where d: "trace (execs \<omega> fuel cs (exec \<omega> fuel c s)) = trace (exec \<omega> fuel c s) @ d"
      "map site_of d = take n (concat (map sites cs))"
      "status (execs \<omega> fuel cs (exec \<omega> fuel c s)) = Running \<longrightarrow> map site_of d = concat (map sites cs)"
      by blast
    have "trace (execs \<omega> fuel (c # cs) s) = trace s @ (d0 @ d)"
      using Cons.prems(2) d0(1) d(1) by simp
    moreover have "map site_of (d0 @ d) = take (length (sites c) + n) (concat (map sites (c # cs)))"
      using d0(2) d(2) by simp
    moreover have "status (execs \<omega> fuel (c # cs) s) = Running \<longrightarrow>
        map site_of (d0 @ d) = concat (map sites (c # cs))"
      using Cons.prems(2) d0(2) d(3) by simp
    ultimately show ?thesis by blast
  next
    case False
    have "trace (execs \<omega> fuel (c # cs) s) = trace s @ d0"
      using Cons.prems(2) d0(1) False by (simp add: execs_stopped)
    moreover have "map site_of d0 = take (length (sites c)) (concat (map sites (c # cs)))"
      using d0(2) by simp
    moreover have "status (execs \<omega> fuel (c # cs) s) \<noteq> Running"
      using Cons.prems(2) False by (simp add: execs_stopped)
    ultimately show ?thesis by blast
  qed
qed

section \<open>Solver options: what every run shows\<close>

lemma run_events_ok:
  assumes "list_all P (sites_of nb)"
  shows "list_all (\<lambda>ev. P (site_of ev)) (trace (run \<omega> fuel nb))"
  using assms run_sites [of \<omega> fuel nb] unfolding list_all_iff by blast

lemma solver_sites_ok: "nb \<in> set matopt_notebooks \<Longrightarrow> list_all solver_site_ok (sites_of nb)"
proof -
  have "list_all (\<lambda>nb. list_all solver_site_ok (sites_of nb)) matopt_notebooks"
    by code_simp
  then show "nb \<in> set matopt_notebooks \<Longrightarrow> list_all solver_site_ok (sites_of nb)"
    unfolding list_all_iff [of _ matopt_notebooks] by blast
qed

lemma solver_calls_sites:
  "as \<in> set (solver_calls t) \<Longrightarrow> SCall ''m.maximize'' as \<in> site_of ` set t"
proof (induction t)
  case Nil
  then show ?case by (simp add: solver_calls_def List.map_filter_simps)
next
  case (Cons ev t)
  then show ?case
    by (cases ev) (auto simp: solver_calls_def List.map_filter_simps split: if_splits)
qed

text \<open>
  The claim C4 as stated, that every solver invocation passes a time limit and at most a
  tree memory limit and nothing else, fails on the nanowire notebook, which calls
  \<^verbatim>\<open>m.maximize(m.Ecoh, tilim=360, solver="cplex")\<close>.
\<close>

theorem nanowire_names_solver:
  "\<not> list_all only_limits (solver_calls (trace (run all_ok 0 nanowire)))"
  by code_simp

text \<open>
  C4, amended. In every run of every MatOpt notebook, every call of \<^verbatim>\<open>m.maximize\<close>
  passes scalar options only: a time limit \<^verbatim>\<open>tilim\<close> (always), and besides it at most
  a tree memory limit \<^verbatim>\<open>trelim\<close>, both numbers, or the solver name
  \<^verbatim>\<open>solver="cplex"\<close>.
\<close>

theorem solver_options_scalar:
  assumes "nb \<in> set matopt_notebooks"
  shows "list_all scalar_options (solver_calls (trace (run \<omega> fuel nb)))"
proof -
  have ok: "list_all solver_site_ok (sites_of nb)"
    using assms by (rule solver_sites_ok)
  have "scalar_options as" if "as \<in> set (solver_calls (trace (run \<omega> fuel nb)))" for as
  proof -
    from that have "SCall ''m.maximize'' as \<in> site_of ` set (trace (run \<omega> fuel nb))"
      by (rule solver_calls_sites)
    then have "SCall ''m.maximize'' as \<in> set (sites_of nb)"
      using run_sites by blast
    with ok have "solver_site_ok (SCall ''m.maximize'' as)"
      unfolding list_all_iff by blast
    then show ?thesis by simp
  qed
  then show ?thesis by (simp add: list_all_iff)
qed

theorem solver_options_scalar_witness:
  "bimetallic \<in> set matopt_notebooks \<and>
   solver_calls (trace (run all_ok 0 bimetallic)) =
     [[pos (Name ''m.Ecoh''), kw ''tilim'' (IntLit 100)],
      [pos (Name ''m.Ecoh''), kw ''tilim'' (IntLit 360), kw ''trelim'' (IntLit 4096)]] \<and>
   list_all scalar_options (solver_calls (trace (run all_ok 0 bimetallic)))"
proof -
  have m: "bimetallic \<in> set matopt_notebooks"
    by (simp add: matopt_notebooks_def)
  have v: "solver_calls (trace (run all_ok 0 bimetallic)) =
     [[pos (Name ''m.Ecoh''), kw ''tilim'' (IntLit 100)],
      [pos (Name ''m.Ecoh''), kw ''tilim'' (IntLit 360), kw ''trelim'' (IntLit 4096)]]"
    by code_simp
  show ?thesis
    using solver_options_scalar [OF m, of all_ok 0] m v by blast
qed

section \<open>Failures outside the solve call are never caught\<close>

lemma failures_append: "failures (t @ t') = failures t @ failures t'"
  by (induction t) (simp_all split: option.splits)

lemma uncaught_running: "uncaught s \<Longrightarrow> status s = Running \<Longrightarrow> failures (trace s) = []"
  by (auto simp: uncaught_def split: list.splits)

lemma uncaught_clean: "failures (trace s) = [] \<Longrightarrow> uncaught s"
  by (simp add: uncaught_def)

lemma uncaught_same:
  "uncaught s \<Longrightarrow> trace s' = trace s \<Longrightarrow> status s' = status s \<Longrightarrow> uncaught s'"
  by (simp add: uncaught_def split: list.splits)

lemma do_call_uncaught:
  "status s = Running \<Longrightarrow> failures (trace s) = [] \<Longrightarrow> uncaught (do_call \<omega> tgt f as s)"
  by (cases tgt)
    (auto simp: do_call_def emit_def raise_def uncaught_def failures_append split: resp.splits)

lemma do_import_uncaught:
  "status s = Running \<Longrightarrow> failures (trace s) = [] \<Longrightarrow> uncaught (do_import \<omega> m s)"
  by (auto simp: do_import_def emit_def raise_def uncaught_def failures_append split: resp.splits)

lemma eval_cond_uncaught:
  "status s = Running \<Longrightarrow> failures (trace s) = [] \<Longrightarrow> uncaught (snd (eval_cond \<omega> c s))"
  by (cases c)
    (auto simp: emit_def raise_def tick_def uncaught_def failures_append
      split: resp.splits option.splits val.splits)

lemma solve_body_failures:
  "list_all solve_call body \<Longrightarrow> failures (trace (execs \<omega> fuel body s)) = failures (trace s)"
proof (induction body arbitrary: s)
  case Nil
  then show ?case by simp
next
  case (Cons c body)
  from Cons.prems obtain tgt f as where c: "c = Call tgt f as" "f = ''m.maximize''"
    by (cases c) auto
  have "failures (trace (do_call \<omega> tgt f as s)) = failures (trace s)"
    using c(2) by (cases tgt) (auto simp: do_call_def emit_def raise_def failures_append split: resp.splits)
  then show ?case using Cons c by simp
qed

lemma exec_uncaught:
  "guards_solve_only c \<Longrightarrow> status s = Running \<Longrightarrow> failures (trace s) = [] \<Longrightarrow>
     uncaught (exec \<omega> fuel c s)"
  "list_all guards_solve_only cs \<Longrightarrow> uncaught s \<Longrightarrow> uncaught (execs \<omega> fuel cs s)"
  "list_all guards_solve_only body \<Longrightarrow> uncaught s \<Longrightarrow> uncaught (repeat \<omega> fuel n body s)"
proof (induction \<omega> fuel c s and \<omega> fuel cs s and \<omega> fuel n body s rule: exec_execs_repeat.induct)
  case (1 \<omega> fuel m s)
  then show ?case by (simp add: do_import_uncaught)
next
  case (2 \<omega> fuel x a s)
  then show ?case by (simp add: uncaught_def)
next
  case (3 \<omega> fuel tgt f as s)
  then show ?case by (simp add: do_call_uncaught)
next
  case (4 \<omega> fuel m s)
  then show ?case by (simp add: uncaught_def failures_append)
next
  case (5 \<omega> fuel body h hbody s)
  let ?s1 = "execs \<omega> fuel body s"
  have f: "failures (trace ?s1) = []"
    using 5(3,5) by (simp add: solve_body_failures)
  show ?case
  proof (cases "status ?s1")
    case (Raised e)
    show ?thesis
    proof (cases "catches h e")
      case True
      have "uncaught (execs \<omega> fuel hbody (?s1\<lparr>status := Running\<rparr>))"
        using 5(2) [OF refl Raised True] 5(3) f by (simp add: uncaught_def)
      then show ?thesis using Raised True by simp
    next
      case False
      then show ?thesis using Raised f by (simp add: uncaught_def)
    qed
  qed (use f in \<open>simp_all add: uncaught_def\<close>)
next
  case (6 \<omega> fuel c thn els s)
  obtain b s1 where e: "eval_cond \<omega> c s = (b, s1)" by (cases "eval_cond \<omega> c s")
  have u: "uncaught s1"
    using eval_cond_uncaught [OF 6(4,5), of \<omega> c] e by simp
  show ?case
  proof (cases b)
    case True
    then show ?thesis using 6(1) [OF e [symmetric] True] 6(3) u e by simp
  next
    case False
    then show ?thesis using 6(2) [OF e [symmetric]] 6(3) u e by simp
  qed
next
  case (7 \<omega> fuel src body s)
  have "uncaught (tick s)" using 7(4) by (simp add: uncaught_def tick_def)
  then show ?case using 7 by simp
next
  case (8 \<omega> fuel n body s)
  then show ?case by (simp add: uncaught_def)
next
  case (9 \<omega> src body s)
  then show ?case by (simp add: uncaught_def)
next
  case (10 \<omega> fuel src body s)
  show ?case
  proof (cases "test \<omega> (clock s)")
    case True
    let ?s1 = "execs \<omega> fuel body (tick s)"
    have "uncaught (tick s)" using 10(5) by (simp add: uncaught_def tick_def)
    then have u: "uncaught ?s1" using 10(1) [OF True] 10(3) by simp
    show ?thesis
    proof (cases "status ?s1 = Running")
      case r: True
      have "uncaught (exec \<omega> fuel (While src body) ?s1)"
        using 10(2) [OF True refl r] 10(3) r u by (simp add: uncaught_running)
      then show ?thesis using True r by simp
    next
      case False
      then show ?thesis using True u by simp
    qed
  next
    case False
    then show ?thesis using 10(5) by (simp add: uncaught_def tick_def)
  qed
next
  case (11 \<omega> fuel ctx x body s)
  show ?case
  proof (cases "outcome \<omega> (clock s)")
    case (Raises e)
    then show ?thesis using 11(3,4)
      by (auto simp: emit_def raise_def uncaught_def failures_append)
  next
    case (Returns v)
    let ?s0 = "bind_result (Some x) v (emit (Called ctx [] (Returns v)) s)"
    have "uncaught ?s0" using 11(4) by (simp add: emit_def uncaught_def failures_append)
    then have "uncaught (execs \<omega> fuel body ?s0)"
      using 11(1) [OF Returns] 11(2) by simp
    then show ?thesis using Returns
      by (simp add: Let_def uncaught_def failures_append split: list.splits)
  qed
next
  case (12 \<omega> fuel s)
  then show ?case by simp
next
  case (13 \<omega> fuel c cs s)
  show ?case
  proof (cases "status s = Running")
    case True
    have "uncaught (exec \<omega> fuel c s)"
      using 13(1) [OF True] 13(3,4) True by (simp add: uncaught_running)
    then show ?thesis using 13(2) [OF True] 13(3) True by simp
  next
    case False
    then show ?thesis using 13(4) by simp
  qed
next
  case (14 \<omega> fuel body s)
  then show ?case by simp
next
  case (15 \<omega> fuel n body s)
  then show ?case by (cases "status s = Running") simp_all
qed

lemma notebooks_guard_solve_only:
  "nb \<in> set notebooks \<Longrightarrow> list_all guards_solve_only (concat nb)"
proof -
  have "list_all (\<lambda>nb. list_all guards_solve_only (concat nb)) notebooks"
    by code_simp
  then show "nb \<in> set notebooks \<Longrightarrow> list_all guards_solve_only (concat nb)"
    unfolding list_all_iff [of _ notebooks] by blast
qed

lemma run_uncaught:
  assumes "nb \<in> set notebooks"
  shows "uncaught (run \<omega> fuel nb)"
  unfolding run_def
  using notebooks_guard_solve_only [OF assms]
  by (rule exec_uncaught(2)) (simp add: uncaught_def init_def)

text \<open>
  C6. In every notebook the body of every \<^verbatim>\<open>try\<close> is the solve call and nothing
  else: no other call has a handler. So in every run, a failure of an import or of any
  call other than the solve call (file reading, canvas and model construction, the writing
  of output files, the RIPE calls) is the only such failure of the run, and the run ends
  with that exception pending, uncaught at the top level of the notebook.
\<close>

theorem failures_propagate:
  assumes "nb \<in> set notebooks"
  shows "list_all guards_solve_only (concat nb) \<and> uncaught (run \<omega> fuel nb)"
  using assms by (simp add: notebooks_guard_solve_only run_uncaught)

theorem failures_propagate_witness:
  "perovskite \<in> set notebooks \<and>
   trace (run all_ok 0 perovskite) ! 15 =
     Called ''ZipFile'' [pos (StrLit ''./confs.zip'')] (Returns VObj) \<and>
   failures (trace (run (fails_at 15 (Exc ''FileNotFoundError'')) 0 perovskite)) =
     [Exc ''FileNotFoundError''] \<and>
   status (run (fails_at 15 (Exc ''FileNotFoundError'')) 0 perovskite) =
     Raised (Exc ''FileNotFoundError'') \<and>
   list_all guards_solve_only (concat perovskite) \<and>
   uncaught (run (fails_at 15 (Exc ''FileNotFoundError'')) 0 perovskite)"
proof -
  have m: "perovskite \<in> set notebooks"
    by (simp add: notebooks_def matopt_notebooks_def)
  have v1: "trace (run all_ok 0 perovskite) ! 15 =
     Called ''ZipFile'' [pos (StrLit ''./confs.zip'')] (Returns VObj)"
    by code_simp
  have v2: "failures (trace (run (fails_at 15 (Exc ''FileNotFoundError'')) 0 perovskite)) =
     [Exc ''FileNotFoundError'']"
    by code_simp
  have v3: "status (run (fails_at 15 (Exc ''FileNotFoundError'')) 0 perovskite) =
     Raised (Exc ''FileNotFoundError'')"
    by code_simp
  show ?thesis
    using failures_propagate [OF m, of "fails_at 15 (Exc ''FileNotFoundError'')" 0] m v1 v2 v3
    by blast
qed

section \<open>Runs of the MatOpt notebooks, split at the solve cell\<close>

lemma matopt_shaped: "list_all shaped matopt_shapes"
  by code_simp

lemma matopt_shape_clean: "list_all shape_clean matopt_shapes"
  by code_simp

lemma matopt_shape_quiet: "list_all shape_quiet matopt_shapes"
  by code_simp

lemma matopt_shapes_notebooks: "map fst matopt_shapes = matopt_notebooks"
  by (simp add: matopt_shapes_def matopt_notebooks_def)

lemma guarded_solve_exec:
  assumes "status s = Running"
  shows "execs \<omega> fuel (guarded_solve v as) s =
           (case outcome \<omega> (clock s) of
              Returns r \<Rightarrow> solved v as r s
            | Raises e \<Rightarrow> unsolved v as e s)"
  using assms
  by (simp add: guarded_solve_def do_call_def emit_def raise_def solved_def unsolved_def
      split: resp.splits)

lemma process_exec_none:
  assumes "status s = Running" and "env s v = Some VNone"
  shows "execs \<omega> fuel [If (IsNotNone v) body []] s = s"
  using assms by simp

lemma process_exec_some:
  assumes "status s = Running" and "env s v = Some r" and "r \<noteq> VNone"
  shows "execs \<omega> fuel [If (IsNotNone v) body []] s = execs \<omega> fuel body s"
  using assms by (simp add: execs_stopped)

lemma solve_process_exec:
  assumes "status s = Running"
  shows "execs \<omega> fuel (guarded_solve v as @ [If (IsNotNone v) body []]) s =
     (case outcome \<omega> (clock s) of
        Raises e \<Rightarrow> unsolved v as e s
      | Returns r \<Rightarrow>
          if r = VNone then solved v as r s else execs \<omega> fuel body (solved v as r s))"
proof (cases "outcome \<omega> (clock s)")
  case (Returns r)
  have st: "status (solved v as r s) = Running" and en: "env (solved v as r s) v = Some r"
    using assms by (simp_all add: solved_def)
  have "execs \<omega> fuel (guarded_solve v as @ [If (IsNotNone v) body []]) s =
          execs \<omega> fuel [If (IsNotNone v) body []] (solved v as r s)"
    using Returns assms by (simp add: execs_append guarded_solve_exec del: execs.simps)
  also have "\<dots> = (if r = VNone then solved v as r s else execs \<omega> fuel body (solved v as r s))"
  proof (cases "r = VNone")
    case True
    then show ?thesis using process_exec_none [OF st, of v] en by simp
  next
    case False
    then show ?thesis using process_exec_some [OF st en False] by simp
  qed
  finally show ?thesis using Returns by simp
next
  case (Raises e)
  have st: "status (unsolved v as e s) = Running" and en: "env (unsolved v as e s) v = Some VNone"
    using assms by (simp_all add: unsolved_def)
  have "execs \<omega> fuel (guarded_solve v as @ [If (IsNotNone v) body []]) s =
          execs \<omega> fuel [If (IsNotNone v) body []] (unsolved v as e s)"
    using Raises assms by (simp add: execs_append guarded_solve_exec del: execs.simps)
  also have "\<dots> = unsolved v as e s"
    using process_exec_none [OF st en] .
  finally show ?thesis using Raises by simp
qed

lemma shaped_run:
  assumes "concat nb = pre @ guarded_solve v as @ [If (IsNotNone v) body []]"
  shows "run \<omega> fuel nb =
     (let s1 = execs \<omega> fuel pre init in
      if status s1 \<noteq> Running then s1
      else case outcome \<omega> (clock s1) of
             Raises e \<Rightarrow> unsolved v as e s1
           | Returns r \<Rightarrow>
               if r = VNone then solved v as r s1 else execs \<omega> fuel body (solved v as r s1))"
proof (cases "status (execs \<omega> fuel pre init) = Running")
  case True
  then show ?thesis
    unfolding run_def assms execs_append [of _ _ pre] Let_def
    by (simp add: solve_process_exec del: execs.simps)
next
  case False
  then show ?thesis
    unfolding run_def assms execs_append [of _ _ pre] Let_def
    by (simp add: execs_stopped del: execs.simps)
qed

lemma execs_new:
  obtains d where "trace (execs \<omega> fuel p s) = trace s @ d"
    and "site_of ` set d \<subseteq> set (concat (map sites p))"
  using exec_grows(2) [of p s \<omega> fuel] unfolding grows_def by blast

lemma solve_outcomes_append: "solve_outcomes (t @ t') = solve_outcomes t @ solve_outcomes t'"
  by (induction t rule: solve_outcomes.induct) simp_all

lemma solve_failed:
  "\<not> solve_succeeded (d @ [Called ''m.maximize'' as (Raises e), Printed m])"
  "\<not> solve_succeeded (d @ [Called ''m.maximize'' as (Returns VNone)])"
  by (simp_all add: solve_succeeded_def solve_outcomes_append)

lemma solve_outcomes_none:
  assumes "list_all (\<lambda>st. \<not> solve_site st) S" and "site_of ` set d \<subseteq> set S"
  shows "solve_outcomes d = []"
  using assms(2)
proof (induction d rule: solve_outcomes.induct)
  case (2 f as r t)
  then have "SCall f as \<in> set S" by simp
  with assms(1) have "\<not> solve_site (SCall f as)" unfolding list_all_iff by blast
  then show ?case using 2 by simp
qed simp_all

lemma processing_none:
  assumes "list_all (\<lambda>st. \<not> processing_site st) S" and "site_of ` set d \<subseteq> set S"
  shows "\<not> list_ex processing d"
  using assms unfolding list_all_iff list_ex_iff processing_def by blast

lemma writes_result_callee:
  "writes_result (SCall f as) \<Longrightarrow> ends_with ''.toPDB'' f \<or> ends_with ''.toCFG'' f"
  by (cases "SCall f as" rule: writes_result.cases) auto

lemma max_not_processing: "\<not> processing (Called ''m.maximize'' as r)"
proof -
  have "\<not> (ends_with ''.toPDB'' ''m.maximize'' \<or> ends_with ''.toCFG'' ''m.maximize'')"
    by (simp add: ends_with_def)
  then have "\<not> writes_result (SCall ''m.maximize'' as)"
    using writes_result_callee by blast
  then show ?thesis
    by (simp add: processing_def ends_with_def)
qed

lemma shape_facts:
  assumes "(nb, pre, v, as, body) \<in> set matopt_shapes"
  shows "concat nb = pre @ guarded_solve v as @ [If (IsNotNone v) body []]"
    and "list_all (\<lambda>st. \<not> processing_site st) (concat (map sites pre))"
    and "list_all (\<lambda>st. \<not> solve_site st) (concat (map sites body))"
    and "list_all (quiet_site (quiet_of nb)) (concat (map sites pre))"
proof -
  have "shaped (nb, pre, v, as, body)"
    using assms matopt_shaped unfolding list_all_iff by blast
  then show "concat nb = pre @ guarded_solve v as @ [If (IsNotNone v) body []]"
    by (simp add: shaped_def)
  have "shape_clean (nb, pre, v, as, body)"
    using assms matopt_shape_clean unfolding list_all_iff by blast
  then show "list_all (\<lambda>st. \<not> processing_site st) (concat (map sites pre))"
    and "list_all (\<lambda>st. \<not> solve_site st) (concat (map sites body))"
    by (simp_all add: shape_clean_def)
  have "shape_quiet (nb, pre, v, as, body)"
    using assms matopt_shape_quiet unfolding list_all_iff by blast
  then show "list_all (quiet_site (quiet_of nb)) (concat (map sites pre))"
    by (simp add: shape_quiet_def)
qed

lemma processed_needs_solution:
  assumes "(nb, pre, v, as, body) \<in> set matopt_shapes"
    and "list_ex processing (trace (run \<omega> fuel nb))"
  shows "solve_succeeded (trace (run \<omega> fuel nb))"
proof -
  let ?s1 = "execs \<omega> fuel pre init"
  note sh = shape_facts [OF assms(1)]
  obtain d1 where d1: "trace ?s1 = trace init @ d1"
    "site_of ` set d1 \<subseteq> set (concat (map sites pre))"
    by (rule execs_new)
  have t1: "trace ?s1 = d1" using d1(1) by (simp add: init_def)
  have np: "\<not> list_ex processing d1"
    using sh(2) d1(2) by (rule processing_none)
  note run = shaped_run [OF sh(1), of \<omega> fuel]
  show ?thesis
  proof (cases "status ?s1 = Running")
    case False
    then have "trace (run \<omega> fuel nb) = d1" using run t1 by (simp add: Let_def)
    then show ?thesis using assms(2) np by simp
  next
    case True
    show ?thesis
    proof (cases "outcome \<omega> (clock ?s1)")
      case (Raises e)
      then have "trace (run \<omega> fuel nb) =
          d1 @ [Called ''m.maximize'' as (Raises e), Printed [StrLit fallback]]"
        using run True t1 by (simp add: Let_def unsolved_def)
      then have "\<not> list_ex processing (trace (run \<omega> fuel nb))"
        using np max_not_processing by (simp add: processing_def [of "Printed _"])
      then show ?thesis using assms(2) by simp
    next
      case (Returns r)
      show ?thesis
      proof (cases "r = VNone")
        case n: True
        then have "trace (run \<omega> fuel nb) = d1 @ [Called ''m.maximize'' as (Returns r)]"
          using run True Returns t1 by (simp add: Let_def solved_def)
        then have "\<not> list_ex processing (trace (run \<omega> fuel nb))"
          using np max_not_processing by simp
        then show ?thesis using assms(2) by simp
      next
        case n: False
        let ?s2 = "solved v as r ?s1"
        obtain d3 where d3: "trace (execs \<omega> fuel body ?s2) = trace ?s2 @ d3"
          "site_of ` set d3 \<subseteq> set (concat (map sites body))"
          by (rule execs_new)
        have "solve_outcomes d3 = []"
          using sh(3) d3(2) by (rule solve_outcomes_none)
        moreover have "trace (run \<omega> fuel nb) = d1 @ [Called ''m.maximize'' as (Returns r)] @ d3"
          using run True Returns n t1 d3(1) by (simp add: Let_def solved_def)
        ultimately have "solve_outcomes (trace (run \<omega> fuel nb)) = solve_outcomes d1 @ [Returns r]"
          by (simp add: solve_outcomes_append)
        then show ?thesis using n by (simp add: solve_succeeded_def)
      qed
    qed
  qed
qed

section \<open>A failed solve leaves nothing to process\<close>

text \<open>
  C8. Every MatOpt notebook ends with its solve cell and its processing cell, of the shapes
  \<open>guarded_solve v as\<close> and \<^verbatim>\<open>if v is not None: body\<close>. If the solve call
  raises, running the two cells ends in the state \<open>unsolved\<close>: the design variable is
  \<^verbatim>\<open>None\<close>, the trace has grown by the failed call and the fallback message and by
  nothing else (no design is modified, \<^verbatim>\<open>setContent\<close> is not called, no result file
  is written), and the run goes on. In every run of the whole notebook, a
  \<^verbatim>\<open>setContent\<close> call or the writing of a result file (\<^verbatim>\<open>result.pdb\<close>,
  \<^verbatim>\<open>periodic_result.pdb\<close>, \<^verbatim>\<open>result.cfg\<close>, \<^verbatim>\<open>periodic_result.cfg\<close>)
  happens only if the last solve call returned a design.
\<close>

theorem failed_solve_leaves_nothing:
  assumes "(nb, pre, v, as, body) \<in> set matopt_shapes"
  shows "concat nb = pre @ guarded_solve v as @ [If (IsNotNone v) body []] \<and>
         (status s = Running \<and> outcome \<omega> (clock s) = Raises e \<longrightarrow>
            execs \<omega> fuel (guarded_solve v as @ [If (IsNotNone v) body []]) s = unsolved v as e s) \<and>
         (list_ex processing (trace (run \<omega> fuel nb)) \<longrightarrow>
            solve_succeeded (trace (run \<omega> fuel nb)))"
proof (intro conjI impI)
  show "concat nb = pre @ guarded_solve v as @ [If (IsNotNone v) body []]"
    using assms by (rule shape_facts(1))
next
  assume "status s = Running \<and> outcome \<omega> (clock s) = Raises e"
  then show "execs \<omega> fuel (guarded_solve v as @ [If (IsNotNone v) body []]) s = unsolved v as e s"
    by (simp add: solve_process_exec del: execs.simps)
next
  assume "list_ex processing (trace (run \<omega> fuel nb))"
  with assms show "solve_succeeded (trace (run \<omega> fuel nb))"
    by (rule processed_needs_solution)
qed

theorem failed_solve_leaves_nothing_witness:
  "(nanowire, concat nanowire_setup, ''optimalDesign'',
      [pos (Name ''m.Ecoh''), kw ''tilim'' (IntLit 360), kw ''solver'' (StrLit ''cplex'')],
      process_body nanowire_process) \<in> set matopt_shapes \<and>
   status (execs (fails_at 32 (Exc ''ApplicationError'')) 0 (concat nanowire_setup) init) = Running \<and>
   outcome (fails_at 32 (Exc ''ApplicationError''))
     (clock (execs (fails_at 32 (Exc ''ApplicationError'')) 0 (concat nanowire_setup) init)) =
     Raises (Exc ''ApplicationError'') \<and>
   execs (fails_at 32 (Exc ''ApplicationError'')) 0
     (guarded_solve ''optimalDesign''
        [pos (Name ''m.Ecoh''), kw ''tilim'' (IntLit 360), kw ''solver'' (StrLit ''cplex'')] @
      [If (IsNotNone ''optimalDesign'') (process_body nanowire_process) []])
     (execs (fails_at 32 (Exc ''ApplicationError'')) 0 (concat nanowire_setup) init) =
   unsolved ''optimalDesign''
     [pos (Name ''m.Ecoh''), kw ''tilim'' (IntLit 360), kw ''solver'' (StrLit ''cplex'')]
     (Exc ''ApplicationError'')
     (execs (fails_at 32 (Exc ''ApplicationError'')) 0 (concat nanowire_setup) init) \<and>
   filter processing (trace (run (fails_at 32 (Exc ''ApplicationError'')) 0 nanowire)) = [] \<and>
   list_ex processing (trace (run all_ok 0 nanowire)) \<and>
   solve_succeeded (trace (run all_ok 0 nanowire))"
proof -
  let ?as = "[pos (Name ''m.Ecoh''), kw ''tilim'' (IntLit 360), kw ''solver'' (StrLit ''cplex'')]"
  let ?w = "fails_at 32 (Exc ''ApplicationError'')"
  let ?s = "execs ?w 0 (concat nanowire_setup) init"
  have m: "(nanowire, concat nanowire_setup, ''optimalDesign'', ?as, process_body nanowire_process)
      \<in> set matopt_shapes"
    by (simp add: matopt_shapes_def)
  have r: "status ?s = Running"
    by code_simp
  have o: "outcome ?w (clock ?s) = Raises (Exc ''ApplicationError'')"
    by code_simp
  have n: "filter processing (trace (run ?w 0 nanowire)) = []"
    by code_simp
  have p: "list_ex processing (trace (run all_ok 0 nanowire))"
    by code_simp
  show ?thesis
    using failed_solve_leaves_nothing [OF m, of ?s ?w "Exc ''ApplicationError''" 0]
      failed_solve_leaves_nothing [OF m, of ?s all_ok "Exc ''ApplicationError''" 0]
      m r o n p
    by blast
qed

section \<open>What guards the solve calls\<close>

lemma answered_quiet_append:
  assumes "list_all (\<lambda>ev. quiet_site q (site_of ev)) t"
  shows "answered (loud_solve q) (t @ t') = answered (loud_solve q) t'"
  using assms
proof (induction t)
  case Nil
  then show ?case by simp
next
  case (Cons ev t)
  then show ?case
    by (cases ev rule: failure.cases) simp_all
qed

lemma quiet_events:
  assumes "list_all (quiet_site q) S" and "site_of ` set d \<subseteq> set S"
  shows "list_all (\<lambda>ev. quiet_site q (site_of ev)) d"
  using assms unfolding list_all_iff by blast

lemma no_solve_quiet:
  assumes "list_all (\<lambda>st. \<not> solve_site st) S"
  shows "list_all (quiet_site q) S"
  unfolding list_all_iff
proof
  fix st assume "st \<in> set S"
  with assms have "\<not> solve_site st" unfolding list_all_iff by blast
  then show "quiet_site q st" by (cases st) (simp_all add: loud_solve_def)
qed

lemma answered_quiet:
  assumes "list_all (\<lambda>ev. quiet_site q (site_of ev)) t"
  shows "answered (loud_solve q) t"
  using answered_quiet_append [OF assms, of "[]"] by simp

lemma matopt_answered:
  assumes "(nb, pre, v, as, body) \<in> set matopt_shapes"
  shows "answered (loud_solve (quiet_of nb)) (trace (run \<omega> fuel nb))"
proof -
  let ?q = "quiet_of nb"
  let ?s1 = "execs \<omega> fuel pre init"
  note sh = shape_facts [OF assms(1)]
  obtain d1 where d1: "trace ?s1 = trace init @ d1"
    "site_of ` set d1 \<subseteq> set (concat (map sites pre))"
    by (rule execs_new)
  have t1: "trace ?s1 = d1" using d1(1) by (simp add: init_def)
  have q1: "list_all (\<lambda>ev. quiet_site ?q (site_of ev)) d1"
    using sh(4) d1(2) by (rule quiet_events)
  note run = shaped_run [OF sh(1), of \<omega> fuel]
  show ?thesis
  proof (cases "status ?s1 = Running")
    case False
    then have "trace (run \<omega> fuel nb) = d1" using run t1 by (simp add: Let_def)
    then show ?thesis using q1 by (simp add: answered_quiet)
  next
    case True
    show ?thesis
    proof (cases "outcome \<omega> (clock ?s1)")
      case (Raises e)
      then have "trace (run \<omega> fuel nb) =
          d1 @ [Called ''m.maximize'' as (Raises e), Printed [StrLit fallback]]"
        using run True t1 by (simp add: Let_def unsolved_def)
      then show ?thesis by (simp add: answered_quiet_append [OF q1])
    next
      case (Returns r)
      show ?thesis
      proof (cases "r = VNone")
        case n: True
        then have "trace (run \<omega> fuel nb) = d1 @ [Called ''m.maximize'' as (Returns r)]"
          using run True Returns t1 by (simp add: Let_def solved_def)
        then show ?thesis by (simp add: answered_quiet_append [OF q1])
      next
        case n: False
        let ?s2 = "solved v as r ?s1"
        obtain d3 where d3: "trace (execs \<omega> fuel body ?s2) = trace ?s2 @ d3"
          "site_of ` set d3 \<subseteq> set (concat (map sites body))"
          by (rule execs_new)
        have "list_all (\<lambda>ev. quiet_site ?q (site_of ev)) d3"
          using no_solve_quiet [OF sh(3)] d3(2) by (rule quiet_events)
        then have "answered (loud_solve ?q) d3" by (rule answered_quiet)
        moreover have "trace (run \<omega> fuel nb) = d1 @ (Called ''m.maximize'' as (Returns r) # d3)"
          using run True Returns n t1 d3(1) by (simp add: Let_def solved_def)
        ultimately show ?thesis by (simp add: answered_quiet_append [OF q1])
      qed
    qed
  qed
qed

lemma quiet_of_single:
  "list_all (\<lambda>nb. quiet_of nb = []) [nanowire, monometallic, surface, bifunctional, perovskite]"
  by code_simp

lemma quiet_of_bimetallic: "quiet_of bimetallic = [first_solve_args]"
  by (simp add: quiet_of_def)

lemma first_solve_exec:
  assumes "status s = Running"
  shows "execs \<omega> fuel bimetallic_first_solve s =
     (case outcome \<omega> (clock s) of
        Returns r \<Rightarrow>
          s\<lparr>env := (env s)(''D'' \<mapsto> r),
            trace := trace s @ [Called ''m.maximize'' first_solve_args (Returns r)],
            clock := Suc (clock s)\<rparr>
      | Raises e \<Rightarrow>
          if catches ExceptException e
          then s\<lparr>env := (env s)(''D'' \<mapsto> VNone),
                 trace := trace s @ [Called ''m.maximize'' first_solve_args (Raises e)],
                 clock := Suc (clock s)\<rparr>
          else s\<lparr>trace := trace s @ [Called ''m.maximize'' first_solve_args (Raises e)],
                 clock := Suc (clock s), status := Raised e\<rparr>)"
  using assms
  by (simp add: bimetallic_first_solve_def first_solve_args_def do_call_def emit_def raise_def
      split: resp.splits)

lemma ripe_never_prints_fallback:
  assumes "nb \<in> set ripe_notebooks"
  shows "Printed [StrLit fallback] \<notin> set (trace (run \<omega> fuel nb))"
proof -
  have "list_all (\<lambda>nb. list_all (\<lambda>st. st \<noteq> SPrint [StrLit fallback]) (sites_of nb)) ripe_notebooks"
    by code_simp
  then have "list_all (\<lambda>st. st \<noteq> SPrint [StrLit fallback]) (sites_of nb)"
    using assms unfolding list_all_iff [of _ ripe_notebooks] by blast
  then have "SPrint [StrLit fallback] \<notin> set (sites_of nb)"
    unfolding list_all_iff by blast
  then show ?thesis
    using run_sites [of \<omega> fuel nb] by force
qed

lemma matopt_has_shape:
  assumes "nb \<in> set matopt_notebooks"
  obtains pre v as body where "(nb, pre, v, as, body) \<in> set matopt_shapes"
proof -
  from assms have "nb \<in> fst ` set matopt_shapes"
    using matopt_shapes_notebooks by (metis set_map)
  then obtain x where x: "x \<in> set matopt_shapes" "fst x = nb" by blast
  obtain a pre v as body where "x = (a, pre, v, as, body)"
    by (cases x)
  with x have "(nb, pre, v, as, body) \<in> set matopt_shapes" by simp
  then show ?thesis by (rule that)
qed

text \<open>
  The claim C1 as stated, that every solve or fit call is under a bare \<^verbatim>\<open>except\<close>
  and that the fallback message is printed when the call raises, fails on the clc notebook:
  its \<^verbatim>\<open>ripe.ripemodel\<close> call is not guarded, and when it raises the run ends there,
  with no message.
\<close>

theorem clc_fit_unguarded:
  "\<not> answered solve_or_fit (trace (run (fails_at 5 (Exc ''ApplicationError'')) 0 clc))"
  by code_simp

text \<open>
  C1, amended. In every run of the nanowire, monometallic, surface, bifunctional and
  perovskite notebooks, every \<^verbatim>\<open>m.maximize\<close> call that raises is followed at once by
  the fallback message: the call is under a bare \<^verbatim>\<open>except\<close>. The same holds in the
  bimetallic notebook for its final solve call. Its first solve call is under
  \<^verbatim>\<open>except Exception\<close>: when it raises an \<^verbatim>\<open>Exception\<close> the handler sets
  \<^verbatim>\<open>D = None\<close>, prints nothing, and the run goes on; any other exception propagates.
  The two RIPE notebooks never print the fallback message, and a failure of
  \<^verbatim>\<open>ripe.ripemodel\<close> ends the run uncaught.
\<close>

theorem solve_guards:
  "(nb \<in> set [nanowire, monometallic, surface, bifunctional, perovskite] \<longrightarrow>
      answered (loud_solve []) (trace (run \<omega> fuel nb))) \<and>
   answered (loud_solve [first_solve_args]) (trace (run \<omega> fuel bimetallic)) \<and>
   (status s = Running \<and> outcome \<omega> (clock s) = Raises (Exc n) \<longrightarrow>
      execs \<omega> fuel bimetallic_first_solve s =
        s\<lparr>env := (env s)(''D'' \<mapsto> VNone),
          trace := trace s @ [Called ''m.maximize'' first_solve_args (Raises (Exc n))],
          clock := Suc (clock s)\<rparr>) \<and>
   (status s = Running \<and> outcome \<omega> (clock s) = Raises (BaseExc n) \<longrightarrow>
      status (execs \<omega> fuel bimetallic_first_solve s) = Raised (BaseExc n)) \<and>
   (nb \<in> set ripe_notebooks \<longrightarrow>
      Printed [StrLit fallback] \<notin> set (trace (run \<omega> fuel nb)) \<and> uncaught (run \<omega> fuel nb))"
proof (intro conjI impI)
  assume a: "nb \<in> set [nanowire, monometallic, surface, bifunctional, perovskite]"
  then have "nb \<in> set matopt_notebooks" by (auto simp: matopt_notebooks_def)
  then obtain pre v as body where "(nb, pre, v, as, body) \<in> set matopt_shapes"
    by (rule matopt_has_shape)
  then have "answered (loud_solve (quiet_of nb)) (trace (run \<omega> fuel nb))"
    by (rule matopt_answered)
  moreover have "quiet_of nb = []"
    using a quiet_of_single unfolding list_all_iff by blast
  ultimately show "answered (loud_solve []) (trace (run \<omega> fuel nb))" by simp
next
  have "bimetallic \<in> set matopt_notebooks" by (simp add: matopt_notebooks_def)
  then obtain pre v as body where "(bimetallic, pre, v, as, body) \<in> set matopt_shapes"
    by (rule matopt_has_shape)
  then have "answered (loud_solve (quiet_of bimetallic)) (trace (run \<omega> fuel bimetallic))"
    by (rule matopt_answered)
  then show "answered (loud_solve [first_solve_args]) (trace (run \<omega> fuel bimetallic))"
    by (simp add: quiet_of_bimetallic)
next
  assume "status s = Running \<and> outcome \<omega> (clock s) = Raises (Exc n)"
  then show "execs \<omega> fuel bimetallic_first_solve s =
        s\<lparr>env := (env s)(''D'' \<mapsto> VNone),
          trace := trace s @ [Called ''m.maximize'' first_solve_args (Raises (Exc n))],
          clock := Suc (clock s)\<rparr>"
    by (simp add: first_solve_exec del: execs.simps)
next
  assume "status s = Running \<and> outcome \<omega> (clock s) = Raises (BaseExc n)"
  then show "status (execs \<omega> fuel bimetallic_first_solve s) = Raised (BaseExc n)"
    by (simp add: first_solve_exec del: execs.simps)
next
  assume "nb \<in> set ripe_notebooks"
  then show "Printed [StrLit fallback] \<notin> set (trace (run \<omega> fuel nb))"
    by (rule ripe_never_prints_fallback)
next
  assume "nb \<in> set ripe_notebooks"
  then have "nb \<in> set notebooks" by (simp add: notebooks_def)
  then show "uncaught (run \<omega> fuel nb)" by (rule run_uncaught)
qed

theorem solve_guards_witness:
  "monometallic \<in> set [nanowire, monometallic, surface, bifunctional, perovskite] \<and>
   answered (loud_solve []) (trace (run (fails_at 23 (Exc ''ApplicationError'')) 0 monometallic)) \<and>
   drop 23 (trace (run (fails_at 23 (Exc ''ApplicationError'')) 0 monometallic)) =
     [Called ''m.maximize'' [pos (Name ''m.Ecoh''), kw ''tilim'' (IntLit 100)]
        (Raises (Exc ''ApplicationError'')),
      Printed [StrLit fallback]] \<and>
   answered (loud_solve [first_solve_args])
     (trace (run (fails_at 18 (Exc ''ApplicationError'')) 0 bimetallic)) \<and>
   status (execs (fails_at 18 (Exc ''ApplicationError'')) 0 (concat bimetallic_setup) init) = Running \<and>
   outcome (fails_at 18 (Exc ''ApplicationError''))
     (clock (execs (fails_at 18 (Exc ''ApplicationError'')) 0 (concat bimetallic_setup) init)) =
     Raises (Exc ''ApplicationError'') \<and>
   env (execs (fails_at 18 (Exc ''ApplicationError'')) 0 bimetallic_first_solve
          (execs (fails_at 18 (Exc ''ApplicationError'')) 0 (concat bimetallic_setup) init)) ''D'' =
     Some VNone \<and>
   status (execs (fails_at 18 (BaseExc ''KeyboardInterrupt'')) 0 bimetallic_first_solve
          (execs (fails_at 18 (BaseExc ''KeyboardInterrupt'')) 0 (concat bimetallic_setup) init)) =
     Raised (BaseExc ''KeyboardInterrupt'') \<and>
   clc \<in> set ripe_notebooks \<and>
   Printed [StrLit fallback] \<notin> set (trace (run (fails_at 5 (Exc ''ApplicationError'')) 0 clc)) \<and>
   uncaught (run (fails_at 5 (Exc ''ApplicationError'')) 0 clc)"
proof -
  let ?w = "fails_at 18 (Exc ''ApplicationError'')"
  let ?s = "execs ?w 0 (concat bimetallic_setup) init"
  let ?wb = "fails_at 18 (BaseExc ''KeyboardInterrupt'')"
  let ?sb = "execs ?wb 0 (concat bimetallic_setup) init"
  have m: "monometallic \<in> set [nanowire, monometallic, surface, bifunctional, perovskite]"
    by simp
  have d: "drop 23 (trace (run (fails_at 23 (Exc ''ApplicationError'')) 0 monometallic)) =
     [Called ''m.maximize'' [pos (Name ''m.Ecoh''), kw ''tilim'' (IntLit 100)]
        (Raises (Exc ''ApplicationError'')),
      Printed [StrLit fallback]]"
    by code_simp
  have r: "status ?s = Running"
    by code_simp
  have o: "outcome ?w (clock ?s) = Raises (Exc ''ApplicationError'')"
    by code_simp
  have rb: "status ?sb = Running"
    by code_simp
  have ob: "outcome ?wb (clock ?sb) = Raises (BaseExc ''KeyboardInterrupt'')"
    by code_simp
  have c: "clc \<in> set ripe_notebooks"
    by (simp add: ripe_notebooks_def)
  have e1: "execs ?w 0 bimetallic_first_solve ?s =
        ?s\<lparr>env := (env ?s)(''D'' \<mapsto> VNone),
          trace := trace ?s @ [Called ''m.maximize'' first_solve_args (Raises (Exc ''ApplicationError''))],
          clock := Suc (clock ?s)\<rparr>"
    using solve_guards [of monometallic ?w 0 ?s "''ApplicationError''"] r o by blast
  have e2: "env (execs ?w 0 bimetallic_first_solve ?s) ''D'' = Some VNone"
    unfolding e1 by simp
  show ?thesis
    using solve_guards [of monometallic "fails_at 23 (Exc ''ApplicationError'')" 0 ?s "''x''"]
      solve_guards [of monometallic ?w 0 ?s "''ApplicationError''"]
      solve_guards [of monometallic ?wb 0 ?sb "''KeyboardInterrupt''"]
      solve_guards [of clc "fails_at 5 (Exc ''ApplicationError'')" 0 ?s "''x''"]
      m d r o rb ob c e2
    by blast
qed

section \<open>One call per optimization step\<close>

lemma execs_running: "status (execs \<omega> fuel p s) = Running \<Longrightarrow> status s = Running"
  using execs_stopped by fastforce

lemma fit_outcomes_append: "fit_outcomes (t @ t') = fit_outcomes t @ fit_outcomes t'"
  by (induction t rule: fit_outcomes.induct) simp_all

lemma fit_outcomes_none:
  assumes "list_all (\<lambda>st. \<not> fit_site st) S" and "site_of ` set d \<subseteq> set S"
  shows "fit_outcomes d = []"
  using assms(2)
proof (induction d rule: fit_outcomes.induct)
  case (2 f as r t)
  then have "SCall f as \<in> set S" by simp
  with assms(1) have "\<not> fit_site (SCall f as)" unfolding list_all_iff by blast
  then show ?case using 2 by simp
qed simp_all

lemma execs_no_solve:
  assumes "list_all (\<lambda>st. \<not> solve_site st) (concat (map sites p))"
  shows "solve_outcomes (trace (execs \<omega> fuel p s)) = solve_outcomes (trace s)"
proof -
  obtain d where d: "trace (execs \<omega> fuel p s) = trace s @ d"
    "site_of ` set d \<subseteq> set (concat (map sites p))"
    by (rule execs_new)
  have "solve_outcomes d = []" using assms d(2) by (rule solve_outcomes_none)
  then show ?thesis using d(1) by (simp add: solve_outcomes_append)
qed

lemma execs_no_fit:
  assumes "list_all (\<lambda>st. \<not> fit_site st) (concat (map sites p))"
  shows "fit_outcomes (trace (execs \<omega> fuel p s)) = fit_outcomes (trace s)"
proof -
  obtain d where d: "trace (execs \<omega> fuel p s) = trace s @ d"
    "site_of ` set d \<subseteq> set (concat (map sites p))"
    by (rule execs_new)
  have "fit_outcomes d = []" using assms d(2) by (rule fit_outcomes_none)
  then show ?thesis using d(1) by (simp add: fit_outcomes_append)
qed

lemma shaped_solve_count:
  assumes sh: "concat nb = pre @ guarded_solve v as @ [If (IsNotNone v) body []]"
    and body: "list_all (\<lambda>st. \<not> solve_site st) (concat (map sites body))"
  shows "length (solve_outcomes (trace (run \<omega> fuel nb))) \<le>
           Suc (length (solve_outcomes (trace (execs \<omega> fuel pre init))))"
    and "status (run \<omega> fuel nb) = Running \<Longrightarrow>
           status (execs \<omega> fuel pre init) = Running \<and>
           length (solve_outcomes (trace (run \<omega> fuel nb))) =
             Suc (length (solve_outcomes (trace (execs \<omega> fuel pre init))))"
proof -
  let ?s1 = "execs \<omega> fuel pre init"
  note run = shaped_run [OF sh, of \<omega> fuel]
  have b: "solve_outcomes (trace (execs \<omega> fuel body (solved v as r ?s1))) =
      solve_outcomes (trace ?s1) @ [Returns r]" for r
    using execs_no_solve [OF body, of \<omega> fuel "solved v as r ?s1"]
    by (simp add: solved_def solve_outcomes_append)
  have c: "length (solve_outcomes (trace (run \<omega> fuel nb))) \<le> Suc (length (solve_outcomes (trace ?s1))) \<and>
     (status (run \<omega> fuel nb) = Running \<longrightarrow>
        status ?s1 = Running \<and>
        length (solve_outcomes (trace (run \<omega> fuel nb))) = Suc (length (solve_outcomes (trace ?s1))))"
  proof (cases "status ?s1 = Running")
    case False
    then show ?thesis using run by (simp add: Let_def)
  next
    case True
    show ?thesis
    proof (cases "outcome \<omega> (clock ?s1)")
      case (Raises e)
      then show ?thesis using run True
        by (simp add: Let_def unsolved_def solve_outcomes_append)
    next
      case (Returns r)
      then show ?thesis using run True b [of r]
        by (cases "r = VNone") (simp_all add: Let_def solved_def solve_outcomes_append)
    qed
  qed
  from c show "length (solve_outcomes (trace (run \<omega> fuel nb))) \<le>
           Suc (length (solve_outcomes (trace (execs \<omega> fuel pre init))))"
    by blast
  from c show "status (run \<omega> fuel nb) = Running \<Longrightarrow>
           status (execs \<omega> fuel pre init) = Running \<and>
           length (solve_outcomes (trace (run \<omega> fuel nb))) =
             Suc (length (solve_outcomes (trace (execs \<omega> fuel pre init))))"
    by blast
qed

lemma single_setups_no_solve:
  "list_all (\<lambda>pre. list_all (\<lambda>st. \<not> solve_site st) (concat (map sites pre)))
     [concat nanowire_setup, concat monometallic_setup, concat surface_setup,
      concat bifunctional_setup, concat perovskite_setup, concat bimetallic_setup,
      concat bimetallic_setup2]"
  by code_simp

lemma single_shapes:
  assumes "nb \<in> set [nanowire, monometallic, surface, bifunctional, perovskite]"
  obtains pre v as body where "(nb, pre, v, as, body) \<in> set matopt_shapes"
    and "list_all (\<lambda>st. \<not> solve_site st) (concat (map sites pre))"
proof -
  from assms consider "nb = nanowire" | "nb = monometallic" | "nb = surface"
    | "nb = bifunctional" | "nb = perovskite"
    by auto
  then show ?thesis
  proof cases
    case 1
    show ?thesis
      by (rule that [of "concat nanowire_setup" "''optimalDesign''"
            "[pos (Name ''m.Ecoh''), kw ''tilim'' (IntLit 360), kw ''solver'' (StrLit ''cplex'')]"
            "process_body nanowire_process"])
        (use 1 single_setups_no_solve in \<open>simp_all add: matopt_shapes_def\<close>)
  next
    case 2
    show ?thesis
      by (rule that [of "concat monometallic_setup" "''D''"
            "[pos (Name ''m.Ecoh''), kw ''tilim'' (IntLit 100)]"
            "process_body monometallic_process"])
        (use 2 single_setups_no_solve in \<open>simp_all add: matopt_shapes_def\<close>)
  next
    case 3
    show ?thesis
      by (rule that [of "concat surface_setup" "''D''"
            "[pos (Name ''m.ActAndStab''), kw ''tilim'' (IntLit 360)]"
            "process_body surface_process"])
        (use 3 single_setups_no_solve in \<open>simp_all add: matopt_shapes_def\<close>)
  next
    case 4
    show ?thesis
      by (rule that [of "concat bifunctional_setup" "''D''"
            "[pos (Name ''m.ActAndStab''), kw ''tilim'' (IntLit 360)]"
            "process_body bifunctional_process"])
        (use 4 single_setups_no_solve in \<open>simp_all add: matopt_shapes_def\<close>)
  next
    case 5
    show ?thesis
      by (rule that [of "concat perovskite_setup" "''D''"
            "[pos (Name ''m.Activity''), kw ''tilim'' (IntLit 360)]"
            "process_body perovskite_process"])
        (use 5 single_setups_no_solve in \<open>simp_all add: matopt_shapes_def\<close>)
  qed
qed

lemma single_solve_count:
  assumes "nb \<in> set [nanowire, monometallic, surface, bifunctional, perovskite]"
  shows "length (solve_outcomes (trace (run \<omega> fuel nb))) \<le> 1"
    and "status (run \<omega> fuel nb) = Running \<Longrightarrow> length (solve_outcomes (trace (run \<omega> fuel nb))) = 1"
proof -
  obtain pre v as body where x: "(nb, pre, v, as, body) \<in> set matopt_shapes"
    and p: "list_all (\<lambda>st. \<not> solve_site st) (concat (map sites pre))"
    using assms by (rule single_shapes)
  note sh = shape_facts [OF x]
  have z: "solve_outcomes (trace (execs \<omega> fuel pre init)) = []"
    using execs_no_solve [OF p, of \<omega> fuel init] by (simp add: init_def)
  show "length (solve_outcomes (trace (run \<omega> fuel nb))) \<le> 1"
    using shaped_solve_count(1) [OF sh(1) sh(3), of \<omega> fuel] z by simp
  show "status (run \<omega> fuel nb) = Running \<Longrightarrow> length (solve_outcomes (trace (run \<omega> fuel nb))) = 1"
    using shaped_solve_count(2) [OF sh(1) sh(3), of \<omega> fuel] z by simp
qed

lemma bimetallic_solve_count:
  shows "length (solve_outcomes (trace (run \<omega> fuel bimetallic))) \<le> 2"
    and "status (run \<omega> fuel bimetallic) = Running \<Longrightarrow>
           length (solve_outcomes (trace (run \<omega> fuel bimetallic))) = 2"
proof -
  let ?pre = "concat bimetallic_setup @ bimetallic_first_solve @ concat bimetallic_setup2"
  let ?as = "[pos (Name ''m.Ecoh''), kw ''tilim'' (IntLit 360), kw ''trelim'' (IntLit 4096)]"
  let ?sA = "execs \<omega> fuel (concat bimetallic_setup) init"
  let ?sF = "execs \<omega> fuel bimetallic_first_solve ?sA"
  let ?s1 = "execs \<omega> fuel ?pre init"
  have x: "(bimetallic, ?pre, ''D'', ?as, process_body bimetallic_process) \<in> set matopt_shapes"
    by (simp add: matopt_shapes_def)
  note sh = shape_facts [OF x]
  have nA: "list_all (\<lambda>st. \<not> solve_site st) (concat (map sites (concat bimetallic_setup)))"
    and nB: "list_all (\<lambda>st. \<not> solve_site st) (concat (map sites (concat bimetallic_setup2)))"
    using single_setups_no_solve by simp_all
  have s1: "?s1 = execs \<omega> fuel (concat bimetallic_setup2) ?sF"
    by (simp only: execs_append)
  have cA: "solve_outcomes (trace ?sA) = []"
    using execs_no_solve [OF nA, of \<omega> fuel init] by (simp add: init_def)
  have cF: "length (solve_outcomes (trace ?sF)) \<le> 1 \<and>
      (status ?sF = Running \<longrightarrow> length (solve_outcomes (trace ?sF)) = 1)"
  proof (cases "status ?sA = Running")
    case True
    show ?thesis
      using cA first_solve_exec [OF True, of \<omega> fuel]
      by (cases "outcome \<omega> (clock ?sA)")
        (simp_all add: solve_outcomes_append del: execs.simps)
  next
    case False
    then show ?thesis using cA by (simp add: execs_stopped del: execs.simps)
  qed
  have c1: "solve_outcomes (trace ?s1) = solve_outcomes (trace ?sF)"
    unfolding s1 using nB by (rule execs_no_solve)
  have r1: "status ?s1 = Running \<Longrightarrow> status ?sF = Running"
    unfolding s1 by (rule execs_running)
  show "length (solve_outcomes (trace (run \<omega> fuel bimetallic))) \<le> 2"
    using shaped_solve_count(1) [OF sh(1) sh(3), of \<omega> fuel] c1 cF by simp
  show "status (run \<omega> fuel bimetallic) = Running \<Longrightarrow>
           length (solve_outcomes (trace (run \<omega> fuel bimetallic))) = 2"
    using shaped_solve_count(2) [OF sh(1) sh(3), of \<omega> fuel] c1 cF r1 by simp
qed

lemma refine_body_split:
  "cstr_refine_body =
     take 12 cstr_refine_body @
     Call (Some ''results'') ''ripe.ripemodel''
       [pos (Name ''new_cdata''), kw ''stoich'' (Name ''stoich''),
        kw ''mechanisms'' (Name ''rxn_mechs''), kw ''x0'' (Name ''new_cdata0''),
        kw ''sigma'' (Name ''sigma''), kw ''expand_output'' (BoolLit True)] #
     drop 13 cstr_refine_body"
  by code_simp

lemma refine_body_rest:
  "list_all (\<lambda>st. \<not> fit_site st) (concat (map sites (take 12 cstr_refine_body)))"
  "list_all (\<lambda>st. \<not> fit_site st) (concat (map sites (drop 13 cstr_refine_body)))"
  by code_simp+

lemma refine_body_fits:
  shows "length (fit_outcomes (trace (execs \<omega> fuel cstr_refine_body s))) \<le>
           Suc (length (fit_outcomes (trace s)))"
    and "status (execs \<omega> fuel cstr_refine_body s) = Running \<Longrightarrow>
           length (fit_outcomes (trace (execs \<omega> fuel cstr_refine_body s))) =
             Suc (length (fit_outcomes (trace s)))"
proof -
  let ?A = "take 12 cstr_refine_body" and ?B = "drop 13 cstr_refine_body"
  let ?as = "[pos (Name ''new_cdata''), kw ''stoich'' (Name ''stoich''),
        kw ''mechanisms'' (Name ''rxn_mechs''), kw ''x0'' (Name ''new_cdata0''),
        kw ''sigma'' (Name ''sigma''), kw ''expand_output'' (BoolLit True)]"
  let ?c = "Call (Some ''results'') ''ripe.ripemodel'' ?as"
  let ?sA = "execs \<omega> fuel ?A s"
  let ?s' = "execs \<omega> fuel cstr_refine_body s"
  have e: "?s' = execs \<omega> fuel (?c # ?B) ?sA"
    by (subst refine_body_split) (simp only: execs_append)
  have cA: "fit_outcomes (trace ?sA) = fit_outcomes (trace s)"
    using refine_body_rest(1) by (rule execs_no_fit)
  have c: "length (fit_outcomes (trace ?s')) \<le> Suc (length (fit_outcomes (trace s))) \<and>
     (status ?s' = Running \<longrightarrow>
        length (fit_outcomes (trace ?s')) = Suc (length (fit_outcomes (trace s))))"
  proof (cases "status ?sA = Running")
    case False
    then show ?thesis unfolding e using cA by simp
  next
    case True
    have "fit_outcomes (trace (execs \<omega> fuel ?B (do_call \<omega> (Some ''results'') ''ripe.ripemodel'' ?as ?sA))) =
        fit_outcomes (trace (do_call \<omega> (Some ''results'') ''ripe.ripemodel'' ?as ?sA))"
      using refine_body_rest(2) by (rule execs_no_fit)
    moreover have "length (fit_outcomes (trace (do_call \<omega> (Some ''results'') ''ripe.ripemodel'' ?as ?sA))) =
        Suc (length (fit_outcomes (trace ?sA)))"
      by (simp add: do_call_def emit_def raise_def fit_outcomes_append split: resp.splits)
    ultimately show ?thesis unfolding e using True cA by simp
  qed
  from c show "length (fit_outcomes (trace ?s')) \<le> Suc (length (fit_outcomes (trace s)))"
    by blast
  from c show "status ?s' = Running \<Longrightarrow>
      length (fit_outcomes (trace ?s')) = Suc (length (fit_outcomes (trace s)))"
    by blast
qed

lemma nothing_spawns:
  assumes "nb \<in> set notebooks"
  shows "list_all (\<lambda>ev. \<not> spawns (site_of ev)) (trace (run \<omega> fuel nb))"
proof -
  have "list_all (\<lambda>nb. list_all (\<lambda>st. \<not> spawns st) (sites_of nb)) notebooks"
    by code_simp
  then have "list_all (\<lambda>st. \<not> spawns st) (sites_of nb)"
    using assms unfolding list_all_iff [of _ notebooks] by blast
  then show ?thesis by (rule run_events_ok)
qed

text \<open>
  The claim C5 as stated, that each MatOpt notebook calls \<^verbatim>\<open>m.maximize\<close> exactly once,
  fails on the bimetallic notebook: a run in which everything succeeds solves twice, first
  the monometallic model and then the bimetallic one.
\<close>

theorem bimetallic_solves_twice:
  "status (run all_ok 0 bimetallic) = Running \<and>
   length (solve_outcomes (trace (run all_ok 0 bimetallic))) = 2"
  by code_simp

text \<open>
  C5, amended. Every optimization step is one call to the solver. The nanowire,
  monometallic, surface, bifunctional and perovskite notebooks call \<^verbatim>\<open>m.maximize\<close> at
  most once in any run and exactly once in a run that completes; the bimetallic notebook has
  two steps, at most two calls and exactly two in a run that completes. One execution of the
  body of the RIPE refinement loop calls \<^verbatim>\<open>ripe.ripemodel\<close> at most once, and exactly
  once when it completes. No notebook imports or calls a module that starts threads or
  processes (\<^verbatim>\<open>threading\<close>, \<^verbatim>\<open>multiprocessing\<close>, \<^verbatim>\<open>concurrent\<close>,
  \<^verbatim>\<open>asyncio\<close>, \<^verbatim>\<open>subprocess\<close>).
\<close>

theorem one_call_per_step:
  "(nb \<in> set [nanowire, monometallic, surface, bifunctional, perovskite] \<longrightarrow>
      length (solve_outcomes (trace (run \<omega> fuel nb))) \<le> 1 \<and>
      (status (run \<omega> fuel nb) = Running \<longrightarrow>
         length (solve_outcomes (trace (run \<omega> fuel nb))) = 1)) \<and>
   length (solve_outcomes (trace (run \<omega> fuel bimetallic))) \<le> 2 \<and>
   (status (run \<omega> fuel bimetallic) = Running \<longrightarrow>
      length (solve_outcomes (trace (run \<omega> fuel bimetallic))) = 2) \<and>
   length (fit_outcomes (trace (execs \<omega> fuel cstr_refine_body s))) \<le>
     Suc (length (fit_outcomes (trace s))) \<and>
   (status (execs \<omega> fuel cstr_refine_body s) = Running \<longrightarrow>
      length (fit_outcomes (trace (execs \<omega> fuel cstr_refine_body s))) =
        Suc (length (fit_outcomes (trace s)))) \<and>
   (nb \<in> set notebooks \<longrightarrow>
      list_all (\<lambda>ev. \<not> spawns (site_of ev)) (trace (run \<omega> fuel nb)))"
  using single_solve_count [of nb \<omega> fuel] bimetallic_solve_count [of \<omega> fuel]
    refine_body_fits [of \<omega> fuel s] nothing_spawns [of nb \<omega> fuel]
  by blast

theorem one_call_per_step_witness:
  "monometallic \<in> set [nanowire, monometallic, surface, bifunctional, perovskite] \<and>
   status (run all_ok 0 monometallic) = Running \<and>
   length (solve_outcomes (trace (run all_ok 0 monometallic))) = 1 \<and>
   status (run all_ok 0 bimetallic) = Running \<and>
   length (solve_outcomes (trace (run all_ok 0 bimetallic))) = 2 \<and>
   status (execs all_ok 0 cstr_refine_body init) = Running \<and>
   length (fit_outcomes (trace (execs all_ok 0 cstr_refine_body init))) =
     Suc (length (fit_outcomes (trace init))) \<and>
   cstr \<in> set notebooks \<and>
   list_all (\<lambda>ev. \<not> spawns (site_of ev)) (trace (run all_ok 3 cstr))"
proof -
  have m: "monometallic \<in> set [nanowire, monometallic, surface, bifunctional, perovskite]"
    by simp
  have r1: "status (run all_ok 0 monometallic) = Running"
    by code_simp
  have r2: "status (run all_ok 0 bimetallic) = Running"
    by code_simp
  have r3: "status (execs all_ok 0 cstr_refine_body init) = Running"
    by code_simp
  have c: "cstr \<in> set notebooks"
    by (simp add: notebooks_def ripe_notebooks_def)
  show ?thesis
    using one_call_per_step [of monometallic all_ok 0 init]
      one_call_per_step [of cstr all_ok 3 init] m r1 r2 r3 c
    by blast
qed

section \<open>Which notebooks have control flow of their own\<close>

lemma clc_straight: "list_all straight (concat clc)"
  by code_simp

lemma clc_fixed:
  "(\<exists>n. map site_of (trace (run \<omega> fuel clc)) = take n (sites_of clc)) \<and>
   (status (run \<omega> fuel clc) = Running \<longrightarrow> map site_of (trace (run \<omega> fuel clc)) = sites_of clc)"
  using straight_trace [OF clc_straight, of init \<omega> fuel]
  unfolding run_def sites_of_def by (auto simp: init_def)

text \<open>
  The claim C7 as stated, that the sequence of library calls of every notebook is the same
  in any two runs whatever the data, fails on the isothermal CSTR notebook: its refinement
  loop runs while the error returned by \<^verbatim>\<open>ripe.ems\<close> exceeds the tolerance. A run
  in which the test fails at once and a run in which it holds once both complete, and the
  second makes one more \<^verbatim>\<open>ripe.ripemodel\<close> call.
\<close>

theorem refinement_loop_depends_on_data:
  "status (run tests_fail 3 cstr) = Running \<and>
   status (run (test_holds_at 12) 3 cstr) = Running \<and>
   length (fit_outcomes (trace (run tests_fail 3 cstr))) = 2 \<and>
   length (fit_outcomes (trace (run (test_holds_at 12) 3 cstr))) = 3 \<and>
   map site_of (trace (run tests_fail 3 cstr)) \<noteq>
     map site_of (trace (run (test_holds_at 12) 3 cstr))"
  by code_simp

text \<open>
  C7, amended. Only the clc notebook has no control flow of its own: every run of it
  performs an initial segment of one fixed sequence of imports and calls, and all of it when
  the run completes, so any two completed runs perform the same sequence. Each of the other
  seven notebooks has control flow original to the repository (the \<^verbatim>\<open>try/except\<close>
  and the \<^verbatim>\<open>if D is not None\<close> guard around the solve, loops over sites, the RIPE
  \<^verbatim>\<open>while\<close> loop), and has two completed runs that perform different sequences of
  calls: one in which the solver is found and one in which \<^verbatim>\<open>m.maximize\<close> raises, or
  for the CSTR notebook one in which the error test fails at once and one in which it holds
  once.
\<close>

theorem control_flow:
  "(\<exists>n. map site_of (trace (run \<omega> fuel clc)) = take n (sites_of clc)) \<and>
   (status (run \<omega> fuel clc) = Running \<longrightarrow>
      map site_of (trace (run \<omega> fuel clc)) = sites_of clc) \<and>
   diverge nanowire all_ok (fails_at 32 (Exc ''ApplicationError'')) 0 \<and>
   diverge monometallic all_ok (fails_at 23 (Exc ''ApplicationError'')) 0 \<and>
   diverge surface all_ok (fails_at 43 (Exc ''ApplicationError'')) 0 \<and>
   diverge bifunctional all_ok (fails_at 99 (Exc ''ApplicationError'')) 0 \<and>
   diverge bimetallic all_ok (fails_at 51 (Exc ''ApplicationError'')) 0 \<and>
   diverge perovskite all_ok (fails_at 46 (Exc ''ApplicationError'')) 0 \<and>
   diverge cstr tests_fail (test_holds_at 12) 3"
proof -
  have d1: "diverge nanowire all_ok (fails_at 32 (Exc ''ApplicationError'')) 0"
    by code_simp
  have d2: "diverge monometallic all_ok (fails_at 23 (Exc ''ApplicationError'')) 0"
    by code_simp
  have d3: "diverge surface all_ok (fails_at 43 (Exc ''ApplicationError'')) 0"
    by code_simp
  have d4: "diverge bifunctional all_ok (fails_at 99 (Exc ''ApplicationError'')) 0"
    by code_simp
  have d5: "diverge bimetallic all_ok (fails_at 51 (Exc ''ApplicationError'')) 0"
    by code_simp
  have d6: "diverge perovskite all_ok (fails_at 46 (Exc ''ApplicationError'')) 0"
    by code_simp
  have d7: "diverge cstr tests_fail (test_holds_at 12) 3"
    by code_simp
  show ?thesis
    using clc_fixed [of \<omega> fuel] d1 d2 d3 d4 d5 d6 d7 by blast
qed

theorem control_flow_witness:
  "status (run all_ok 0 clc) = Running \<and>
   map site_of (trace (run all_ok 0 clc)) = sites_of clc \<and>
   map site_of (trace (run (fails_at 4 (Exc ''ApplicationError'')) 0 clc)) = take 5 (sites_of clc)"
proof -
  have r: "status (run all_ok 0 clc) = Running"
    by code_simp
  have f: "map site_of (trace (run (fails_at 4 (Exc ''ApplicationError'')) 0 clc)) = take 5 (sites_of clc)"
    by code_simp
  show ?thesis
    using control_flow [of all_ok 0] r f by blast
qed

section \<open>The refinement loop adds one row per iteration\<close>

lemma broadcast2_same:
  assumes "rectangular r c src" and "0 < r"
  shows "broadcast2 r c src = Inr src"
proof -
  from assms have ne: "src \<noteq> []" by (auto simp: rectangular_def)
  from assms have rows: "\<forall>row \<in> set src. length row = c"
    by (simp add: rectangular_def list_all_iff)
  with ne have h: "length (hd src) = c" by simp
  have "map (\<lambda>row. if length row = c then row else replicate c (hd row)) src = src"
    using rows by (simp add: map_idI)
  then show ?thesis
    using assms(1) ne rows h by (simp add: broadcast2_def rectangular_def list_all_iff)
qed

lemma drop_zeros: "drop r (zeros (Suc r) c) = [replicate c 0]"
  unfolding zeros_def drop_replicate by simp

lemma set_but_last_zeros:
  assumes "rectangular r c src" and "0 < r"
  shows "set_but_last c (zeros (Suc r) c) src = Inr (src @ [replicate c 0])"
proof -
  have l: "length (zeros (Suc r) c) - 1 = r" by (simp add: zeros_def)
  show ?thesis
    unfolding set_but_last_def l broadcast2_same [OF assms] drop_zeros
    by simp
qed

lemma set_last_snoc:
  assumes "length p = c"
  shows "set_last c (a @ [z]) p = Inr (a @ [p])"
  using assms by (simp add: set_last_def broadcast1_def)

lemma set_last_items_snoc:
  assumes "length res = c"
  shows "set_last_items (a @ [replicate c 0]) res = Inr (a @ [res])"
  using assms by (simp add: set_last_items_def set_items_def)

lemma rectangular_snoc:
  "rectangular r c a \<Longrightarrow> length row = c \<Longrightarrow> rectangular (Suc r) c (a @ [row])"
  by (simp add: rectangular_def)

lemma refine_body_step:
  assumes "rectangular (nd + ite st) ns (cdata0 st)"
    and "rectangular (nd + ite st) ns (cdata st)"
    and "0 < nd" and "length (new_points st) = ns"
    and "sim_res lib = Some res" and "length res = ns" and "fitted lib"
    and "ems_res lib = Some pe" and "sim_new_res lib = Some res'"
  shows "refine_body noise nd ns lib st =
           Inr \<lparr>ite = Suc (ite st),
                cdata0 = cdata0 st @ [new_points st],
                cdata = cdata st @ [res],
                sigma = weights noise (cdata st @ [res]),
                new_points = fst pe, err = snd pe, new_res = res'\<rparr>"
proof -
  have p: "0 < nd + ite st" using assms(3) by simp
  have a: "set_but_last ns (zeros (Suc (nd + ite st)) ns) (cdata0 st) = Inr (cdata0 st @ [replicate ns 0])"
    using assms(1) p by (rule set_but_last_zeros)
  have b: "set_but_last ns (zeros (Suc (nd + ite st)) ns) (cdata st) = Inr (cdata st @ [replicate ns 0])"
    using assms(2) p by (rule set_but_last_zeros)
  have c: "set_last ns (cdata0 st @ [replicate ns 0]) (new_points st) = Inr (cdata0 st @ [new_points st])"
    using assms(4) by (rule set_last_snoc)
  have d: "set_last_items (cdata st @ [replicate ns 0]) res = Inr (cdata st @ [res])"
    using assms(6) by (rule set_last_items_snoc)
  show ?thesis
    unfolding refine_body_def Let_def
    by (simp add: a b c d assms(5,7,8,9))
qed

lemma iterations_invariant:
  assumes "starts noise nd ns st0" and "\<forall>i<k. answers_fit ns (lib i)"
  shows "\<exists>st. iterations k noise nd ns lib st0 = Inr st \<and> ite st = k \<and>
           rectangular (nd + k) ns (cdata0 st) \<and> rectangular (nd + k) ns (cdata st) \<and>
           length (new_points st) = ns \<and> sigma st = weights noise (cdata st)"
  using assms(2)
proof (induction k)
  case 0
  then show ?case using assms(1) by (simp add: starts_def)
next
  case (Suc k)
  then obtain st where st: "iterations k noise nd ns lib st0 = Inr st" "ite st = k"
    "rectangular (nd + k) ns (cdata0 st)" "rectangular (nd + k) ns (cdata st)"
    "length (new_points st) = ns"
    by auto
  from Suc.prems have "answers_fit ns (lib k)" by simp
  then obtain res pe res' where l: "sim_res (lib k) = Some res" "length res = ns" "fitted (lib k)"
    "ems_res (lib k) = Some pe" "length (fst pe) = ns" "sim_new_res (lib k) = Some res'"
    by (auto simp: answers_fit_def split: option.splits)
  have nd: "0 < nd" using assms(1) by (simp add: starts_def)
  have "refine_body noise nd ns (lib k) st =
           Inr \<lparr>ite = Suc (ite st),
                cdata0 = cdata0 st @ [new_points st],
                cdata = cdata st @ [res],
                sigma = weights noise (cdata st @ [res]),
                new_points = fst pe, err = snd pe, new_res = res'\<rparr>"
    using st(3,4) nd st(5) l(1,2,3,4,6) unfolding st(2) [symmetric]
    by (rule refine_body_step)
  then show ?case
    using st l by (simp add: rectangular_snoc)
qed

lemma iterations_last_step:
  assumes "starts noise nd ns st0" and "\<forall>i<Suc k. answers_fit ns (lib i)"
  shows "\<exists>prev st res pe res'. iterations k noise nd ns lib st0 = Inr prev \<and>
           iterations (Suc k) noise nd ns lib st0 = Inr st \<and>
           sim_res (lib k) = Some res \<and> ems_res (lib k) = Some pe \<and>
           sim_new_res (lib k) = Some res' \<and>
           cdata0 st = cdata0 prev @ [new_points prev] \<and> cdata st = cdata prev @ [res] \<and>
           new_points st = fst pe \<and> err st = snd pe \<and> new_res st = res' \<and>
           length (cdata0 prev) = nd + k \<and> length (cdata prev) = nd + k"
proof -
  from assms(2) have "\<forall>i<k. answers_fit ns (lib i)" by simp
  from iterations_invariant [OF assms(1) this]
  obtain st where st: "iterations k noise nd ns lib st0 = Inr st" "ite st = k"
    "rectangular (nd + k) ns (cdata0 st)" "rectangular (nd + k) ns (cdata st)"
    "length (new_points st) = ns"
    by blast
  from assms(2) have "answers_fit ns (lib k)" by simp
  then obtain res pe res' where l: "sim_res (lib k) = Some res" "length res = ns" "fitted (lib k)"
    "ems_res (lib k) = Some pe" "sim_new_res (lib k) = Some res'"
    by (auto simp: answers_fit_def split: option.splits)
  have nd: "0 < nd" using assms(1) by (simp add: starts_def)
  have "refine_body noise nd ns (lib k) st =
           Inr \<lparr>ite = Suc (ite st),
                cdata0 = cdata0 st @ [new_points st],
                cdata = cdata st @ [res],
                sigma = weights noise (cdata st @ [res]),
                new_points = fst pe, err = snd pe, new_res = res'\<rparr>"
    using st(3,4) nd st(5) l unfolding st(2) [symmetric]
    by (rule refine_body_step)
  then show ?thesis
    using st l(1,4,5) by (simp add: rectangular_def)
qed

lemma iterations_shift:
  "iterations (Suc k) noise nd ns lib st =
     (case refine_body noise nd ns (lib (ite st)) st of
        Inl e \<Rightarrow> Inl e
      | Inr st' \<Rightarrow> iterations k noise nd ns lib st')"
proof (induction k)
  case 0
  then show ?case by (simp split: sum.splits)
next
  case (Suc k)
  have step: "iterations (Suc (Suc k)) noise nd ns lib st =
      (case iterations (Suc k) noise nd ns lib st of
         Inl e \<Rightarrow> Inl e
       | Inr s \<Rightarrow> refine_body noise nd ns (lib (ite s)) s)"
    by (rule iterations.simps(2))
  show ?case
  proof (cases "refine_body noise nd ns (lib (ite st)) st")
    case (Inl e)
    then have "iterations (Suc k) noise nd ns lib st = Inl e"
      by (simp only: Suc sum.case)
    then show ?thesis using Inl by (simp only: step sum.case)
  next
    case (Inr s1)
    then have "iterations (Suc k) noise nd ns lib st = iterations k noise nd ns lib s1"
      by (simp only: Suc sum.case)
    then have "iterations (Suc (Suc k)) noise nd ns lib st =
        (case iterations k noise nd ns lib s1 of
           Inl e \<Rightarrow> Inl e
         | Inr s \<Rightarrow> refine_body noise nd ns (lib (ite s)) s)"
      by (simp only: step)
    also have "\<dots> = iterations (Suc k) noise nd ns lib s1"
      by (rule iterations.simps(2) [symmetric])
    finally show ?thesis using Inr by (simp only: sum.case)
  qed
qed

lemma refine_iterations:
  "refine fuel noise nd ns lib st = Some (Inr st') \<Longrightarrow>
     \<exists>k. iterations k noise nd ns lib st = Inr st'"
proof (induction fuel arbitrary: st)
  case 0
  then show ?case by simp
next
  case (Suc fuel)
  show ?case
  proof (cases "loop_test noise st")
    case (Inl e)
    then show ?thesis using Suc.prems by simp
  next
    case (Inr b)
    show ?thesis
    proof (cases b)
      case False
      then have "st' = st" using Suc.prems Inr by simp
      then have "iterations 0 noise nd ns lib st = Inr st'" by simp
      then show ?thesis by blast
    next
      case True
      show ?thesis
      proof (cases "refine_body noise nd ns (lib (ite st)) st")
        case (Inl e)
        then show ?thesis using Suc.prems \<open>loop_test noise st = Inr b\<close> True by simp
      next
        case s1: (Inr s1)
        then have "refine fuel noise nd ns lib s1 = Some (Inr st')"
          using Suc.prems \<open>loop_test noise st = Inr b\<close> True by simp
        then obtain k where "iterations k noise nd ns lib s1 = Inr st'"
          using Suc.IH by blast
        then have "iterations (Suc k) noise nd ns lib st = Inr st'"
          using s1 by (simp only: iterations_shift sum.case)
        then show ?thesis by blast
      qed
    qed
  qed
qed

text \<open>
  C10. Let the loop start with \<open>nd\<close> data points of \<open>ns\<close> entries in \<^verbatim>\<open>cdata0\<close>
  and \<^verbatim>\<open>cdata\<close>, and let the library answer each iteration with a simulated result
  and a new point of \<open>ns\<close> entries. Then the body can be executed any number \<open>k\<close> of
  times, and afterwards \<^verbatim>\<open>ite\<close> is \<open>k\<close>, both arrays have \<open>nd + k\<close> rows,
  \<^verbatim>\<open>sigma\<close> is \<open>noise^2\<close> times \<^verbatim>\<open>cdata\<close> elementwise, and for \<open>k > 0\<close>
  the first \<open>nd + k - 1\<close> rows of each array are the array as it was before the last
  iteration, the last row of \<^verbatim>\<open>cdata\<close> is the result simulated in the last iteration,
  and the last row of \<^verbatim>\<open>cdata0\<close> is the point returned by the call of
  \<^verbatim>\<open>ripe.ems\<close> before it: the call of iteration \<open>k - 1\<close>, or for \<open>k = 1\<close> the call
  before the loop, whose point the loop starts with. The point and the errors that
  \<^verbatim>\<open>ripe.ems\<close> returns in the last iteration, and the result simulated for that
  point, are kept in \<^verbatim>\<open>new_points\<close>, \<^verbatim>\<open>err\<close> and \<^verbatim>\<open>new_res\<close> for the
  test of the loop and the next iteration. Every state the loop returns is the state after
  some number of executions of its body.
\<close>

theorem rows_grow_one_by_one:
  fixes noise :: "'a::{zero,power,numeral,ord}"
  assumes "starts noise nd ns st0" and "\<forall>i<k. answers_fit ns (lib i)"
  shows "(\<exists>st. iterations k noise nd ns lib st0 = Inr st \<and> ite st = k \<and>
            length (cdata0 st) = nd + k \<and> length (cdata st) = nd + k \<and>
            sigma st = weights noise (cdata st) \<and>
            (0 < k \<longrightarrow>
               (\<exists>prev res pe res'. iterations (k - 1) noise nd ns lib st0 = Inr prev \<and>
                  sim_res (lib (k - 1)) = Some res \<and> ems_res (lib (k - 1)) = Some pe \<and>
                  sim_new_res (lib (k - 1)) = Some res' \<and>
                  take (nd + k - 1) (cdata0 st) = cdata0 prev \<and>
                  take (nd + k - 1) (cdata st) = cdata prev \<and>
                  last (cdata0 st) = new_points prev \<and> last (cdata st) = res \<and>
                  new_points st = fst pe \<and> err st = snd pe \<and> new_res st = res')) \<and>
            (k = 1 \<longrightarrow> last (cdata0 st) = new_points st0) \<and>
            (1 < k \<longrightarrow>
               (\<exists>pe. ems_res (lib (k - 2)) = Some pe \<and> last (cdata0 st) = fst pe))) \<and>
         (refine fuel noise nd ns lib st0 = Some (Inr st') \<longrightarrow>
            (\<exists>j. iterations j noise nd ns lib st0 = Inr st'))"
proof (intro conjI impI)
  from iterations_invariant [OF assms]
  obtain st where st: "iterations k noise nd ns lib st0 = Inr st" "ite st = k"
    "rectangular (nd + k) ns (cdata0 st)" "rectangular (nd + k) ns (cdata st)"
    "sigma st = weights noise (cdata st)"
    by blast
  have last_step: "\<exists>prev res pe res'. iterations (k - 1) noise nd ns lib st0 = Inr prev \<and>
                  sim_res (lib (k - 1)) = Some res \<and> ems_res (lib (k - 1)) = Some pe \<and>
                  sim_new_res (lib (k - 1)) = Some res' \<and>
                  take (nd + k - 1) (cdata0 st) = cdata0 prev \<and>
                  take (nd + k - 1) (cdata st) = cdata prev \<and>
                  last (cdata0 st) = new_points prev \<and> last (cdata st) = res \<and>
                  new_points st = fst pe \<and> err st = snd pe \<and> new_res st = res'" if "0 < k"
  proof -
    from that obtain k' where k: "k = Suc k'" by (cases k) auto
    from iterations_last_step [OF assms(1), of k' lib] assms(2) k
    obtain prev s res pe res' where p: "iterations k' noise nd ns lib st0 = Inr prev"
      "iterations (Suc k') noise nd ns lib st0 = Inr s" "sim_res (lib k') = Some res"
      "ems_res (lib k') = Some pe" "sim_new_res (lib k') = Some res'"
      "cdata0 s = cdata0 prev @ [new_points prev]" "cdata s = cdata prev @ [res]"
      "new_points s = fst pe" "err s = snd pe" "new_res s = res'"
      "length (cdata0 prev) = nd + k'" "length (cdata prev) = nd + k'"
      by blast
    from p(2) st(1) k have "s = st" by simp
    with p k show ?thesis by simp
  qed
  have first: "last (cdata0 st) = new_points st0" if "k = 1"
  proof -
    from last_step that obtain prev where "iterations 0 noise nd ns lib st0 = Inr prev"
      "last (cdata0 st) = new_points prev" by auto
    then show ?thesis by simp
  qed
  have later: "\<exists>pe. ems_res (lib (k - 2)) = Some pe \<and> last (cdata0 st) = fst pe" if "1 < k"
  proof -
    from that have "k = Suc (Suc (k - 2))" by simp
    then obtain j where k: "k = Suc (Suc j)" ..
    from last_step k obtain prev where prev: "iterations (Suc j) noise nd ns lib st0 = Inr prev"
      "last (cdata0 st) = new_points prev" by auto
    have "\<forall>i<Suc j. answers_fit ns (lib i)" using assms(2) k by simp
    from iterations_last_step [OF assms(1) this]
    obtain s pe where "iterations (Suc j) noise nd ns lib st0 = Inr s"
      "ems_res (lib j) = Some pe" "new_points s = fst pe" by blast
    then show ?thesis using prev k by simp
  qed
  show "\<exists>st. iterations k noise nd ns lib st0 = Inr st \<and> ite st = k \<and>
            length (cdata0 st) = nd + k \<and> length (cdata st) = nd + k \<and>
            sigma st = weights noise (cdata st) \<and>
            (0 < k \<longrightarrow>
               (\<exists>prev res pe res'. iterations (k - 1) noise nd ns lib st0 = Inr prev \<and>
                  sim_res (lib (k - 1)) = Some res \<and> ems_res (lib (k - 1)) = Some pe \<and>
                  sim_new_res (lib (k - 1)) = Some res' \<and>
                  take (nd + k - 1) (cdata0 st) = cdata0 prev \<and>
                  take (nd + k - 1) (cdata st) = cdata prev \<and>
                  last (cdata0 st) = new_points prev \<and> last (cdata st) = res \<and>
                  new_points st = fst pe \<and> err st = snd pe \<and> new_res st = res')) \<and>
            (k = 1 \<longrightarrow> last (cdata0 st) = new_points st0) \<and>
            (1 < k \<longrightarrow>
               (\<exists>pe. ems_res (lib (k - 2)) = Some pe \<and> last (cdata0 st) = fst pe))"
    using st last_step first later by (intro exI [of _ st]) (simp add: rectangular_def)
next
  assume "refine fuel noise nd ns lib st0 = Some (Inr st')"
  then show "\<exists>j. iterations j noise nd ns lib st0 = Inr st'"
    by (rule refine_iterations)
qed

theorem rows_grow_one_by_one_witness:
  "starts (2::int) 2 3
     \<lparr>ite = 0, cdata0 = [[1, 1, 0], [10, 10, 0]], cdata = [[5, 5, 5], [6, 6, 6]],
       sigma = [[20, 20, 20], [24, 24, 24]], new_points = [4, 4, 4], err = [9, 9, 9],
       new_res = [1, 1, 1]\<rparr> \<and>
   answers_fit 3 ((\<lambda>i. \<lparr>sim_res = Some [int i, 2, 3], fitted = True,
             ems_res = Some ([7, 8, int i], [1, 1, 1]), sim_new_res = Some [1, 1, 1]\<rparr>) 0) \<and>
   answers_fit 3 ((\<lambda>i. \<lparr>sim_res = Some [int i, 2, 3], fitted = True,
             ems_res = Some ([7, 8, int i], [1, 1, 1]), sim_new_res = Some [1, 1, 1]\<rparr>) 1) \<and>
   iterations 2 2 2 3
     (\<lambda>i. \<lparr>sim_res = Some [int i, 2, 3], fitted = True,
             ems_res = Some ([7, 8, int i], [1, 1, 1]), sim_new_res = Some [1, 1, 1]\<rparr>)
     \<lparr>ite = 0, cdata0 = [[1, 1, 0], [10, 10, 0]], cdata = [[5, 5, 5], [6, 6, 6]],
       sigma = [[20, 20, 20], [24, 24, 24]], new_points = [4, 4, 4], err = [9, 9, 9],
       new_res = [1, 1, 1]\<rparr> =
   Inr \<lparr>ite = 2, cdata0 = [[1, 1, 0], [10, 10, 0], [4, 4, 4], [7, 8, 0]],
        cdata = [[5, 5, 5], [6, 6, 6], [0, 2, 3], [1, 2, 3]],
        sigma = [[20, 20, 20], [24, 24, 24], [0, 8, 12], [4, 8, 12]],
        new_points = [7, 8, 1], err = [1, 1, 1], new_res = [1, 1, 1]\<rparr> \<and>
   refine 3 2 2 3
     (\<lambda>i. \<lparr>sim_res = Some [int i, 2, 3], fitted = True,
             ems_res = Some ([7, 8, int i], [1, 1, 1]), sim_new_res = Some [1, 1, 1]\<rparr>)
     \<lparr>ite = 0, cdata0 = [[1, 1, 0], [10, 10, 0]], cdata = [[5, 5, 5], [6, 6, 6]],
       sigma = [[20, 20, 20], [24, 24, 24]], new_points = [4, 4, 4], err = [9, 9, 9],
       new_res = [1, 1, 1]\<rparr> =
   Some (Inr (\<lparr>ite = 1, cdata0 = [[1, 1, 0], [10, 10, 0], [4, 4, 4]],
       cdata = [[5, 5, 5], [6, 6, 6], [0, 2, 3]],
       sigma = [[20, 20, 20], [24, 24, 24], [0, 8, 12]], new_points = [7, 8, 0],
       err = [1, 1, 1], new_res = [1, 1, 1]\<rparr>))"
proof -
  let ?lib = "(\<lambda>i. \<lparr>sim_res = Some [int i, 2, 3], fitted = True,
             ems_res = Some ([7, 8, int i], [1, 1, 1]), sim_new_res = Some [1, 1, 1]\<rparr>)"
  let ?st = "\<lparr>ite = 0, cdata0 = [[1, 1, 0], [10, 10, 0]], cdata = [[5, 5, 5], [6, 6, 6]],
       sigma = [[20, 20, 20], [24, 24, 24]], new_points = [4, 4, 4], err = [9, 9, 9],
       new_res = [1, 1, 1]\<rparr>"
  have s: "starts (2::int) 2 3 ?st"
    by (simp add: starts_def rectangular_def weights_def)
  have a0: "answers_fit 3 (?lib 0)" and a1: "answers_fit 3 (?lib 1)"
    by (simp_all add: answers_fit_def)
  have a: "\<forall>i<2. answers_fit 3 (?lib i)"
    by (simp add: answers_fit_def)
  have v: "iterations 2 2 2 3 ?lib ?st =
   Inr \<lparr>ite = 2, cdata0 = [[1, 1, 0], [10, 10, 0], [4, 4, 4], [7, 8, 0]],
        cdata = [[5, 5, 5], [6, 6, 6], [0, 2, 3], [1, 2, 3]],
        sigma = [[20, 20, 20], [24, 24, 24], [0, 8, 12], [4, 8, 12]],
        new_points = [7, 8, 1], err = [1, 1, 1], new_res = [1, 1, 1]\<rparr>"
    by code_simp
  have r: "refine 3 2 2 3 ?lib ?st = Some (Inr \<lparr>ite = 1, cdata0 = [[1, 1, 0], [10, 10, 0], [4, 4, 4]],
       cdata = [[5, 5, 5], [6, 6, 6], [0, 2, 3]],
       sigma = [[20, 20, 20], [24, 24, 24], [0, 8, 12]], new_points = [7, 8, 0],
       err = [1, 1, 1], new_res = [1, 1, 1]\<rparr>)"
    by code_simp
  show ?thesis
    using rows_grow_one_by_one [OF s a, of 3 "\<lparr>ite = 1, cdata0 = [[1, 1, 0], [10, 10, 0], [4, 4, 4]],
       cdata = [[5, 5, 5], [6, 6, 6], [0, 2, 3]],
       sigma = [[20, 20, 20], [24, 24, 24], [0, 8, 12]], new_points = [7, 8, 0],
       err = [1, 1, 1], new_res = [1, 1, 1]\<rparr>"] s a0 a1 v r by blast
qed

section \<open>The phases of a run, in order\<close>
































section \<open>File access: what every run shows\<close>

text \<open>
  Every call written in a notebook is a known file access, an invocation of the solver or a
  known call that works in memory; the table of the file accesses lists every notebook, and
  agrees with what is written in the cells before the final solve and in the processing
  cell, where every file access is a statement of its own or stands in a context manager
  around calls.
\<close>

lemma calls_ok: "list_all (\<lambda>nb. list_all call_ok (sites_of nb)) notebooks"
  by code_simp

lemma file_table_notebooks: "map fst file_table = notebooks"
  by (simp add: file_table_def matopt_files_def ripe_files_def notebooks_def
      matopt_notebooks_def ripe_notebooks_def)

lemma matopt_files_shapes:
  "list_all2 (\<lambda>x y. case x of (nb, pre, v, as, body) \<Rightarrow> case y of (nb', before, after) \<Rightarrow>
      list_all plain pre \<and> file_sites pre = before \<and>
      list_all plain body \<and> file_sites body = after)
    matopt_shapes matopt_files"
  by code_simp

lemma matopt_files_names: "map fst matopt_files = map fst matopt_shapes"
  by (simp add: matopt_files_def matopt_shapes_def)

lemma ripe_files_plain:
  "list_all (\<lambda>y. case y of (nb, before, after) \<Rightarrow>
      list_all plain (concat nb) \<and> file_sites (concat nb) = before \<and> after = [] \<and>
      list_ex is_fit (concat nb)) ripe_files"
  by code_simp

lemma ripe_files_names: "map fst ripe_files = ripe_notebooks"
  by (simp add: ripe_files_def ripe_notebooks_def)


text \<open>A statement without file access in it adds none to the trace.\<close>

lemma quiet_exec:
  assumes "list_all (\<lambda>st. \<not> file_site st) (sites c)"
  shows "\<exists>d. trace (exec \<omega> fuel c s) = trace s @ d \<and> filter file_site (map site_of d) = []"
proof -
  from exec_grows(1) [of c s \<omega> fuel]
  obtain d where d: "trace (exec \<omega> fuel c s) = trace s @ d" "site_of ` set d \<subseteq> set (sites c)"
    unfolding grows_def by blast
  have "\<forall>ev \<in> set d. \<not> file_site (site_of ev)"
    using d(2) assms unfolding list_all_iff by blast
  then have "filter file_site (map site_of d) = []"
    by (simp add: filter_empty_conv)
  with d(1) show ?thesis by blast
qed

lemma calls_straight: "list_all is_call body \<Longrightarrow> list_all straight body"
proof (induction body)
  case Nil
  then show ?case by simp
next
  case (Cons c cs)
  then show ?case by (cases c) simp_all
qed

text \<open>
  A plain statement that runs to its end has made the file accesses written in it, in
  order.
\<close>

lemma plain_exec:
  assumes "plain c" and "status s = Running" and "status (exec \<omega> fuel c s) = Running"
  shows "\<exists>d. trace (exec \<omega> fuel c s) = trace s @ d \<and>
           filter file_site (map site_of d) = filter file_site (sites c)"
proof (cases "list_all (\<lambda>st. \<not> file_site st) (sites c)")
  case True
  then have "filter file_site (sites c) = []"
    unfolding list_all_iff by (simp add: filter_empty_conv)
  with quiet_exec [OF True, of \<omega> fuel s] show ?thesis by simp
next
  case False
  then consider (call) tgt f as where "c = Call tgt f as"
    | (ctx) ctx x body where "c = With ctx x body" "list_all is_call body"
    using assms(1) by (cases c) simp_all
  then show ?thesis
  proof cases
    case call
    then obtain v where "outcome \<omega> (clock s) = Returns v"
      using assms(3) by (cases "outcome \<omega> (clock s)") (auto simp: do_call_def emit_def raise_def)
    then have "trace (exec \<omega> fuel c s) = trace s @ [Called f as (Returns v)]"
      using call by (cases tgt) (simp_all add: do_call_def emit_def)
    then show ?thesis using call by simp
  next
    case ctx
    obtain v where v: "outcome \<omega> (clock s) = Returns v"
      using assms(3) ctx(1) by (cases "outcome \<omega> (clock s)") (auto simp: emit_def raise_def)
    let ?s0 = "bind_result (Some x) v (emit (Called ctx [] (Returns v)) s)"
    let ?s1 = "execs \<omega> fuel body ?s0"
    have e: "exec \<omega> fuel c s = ?s1\<lparr>trace := trace ?s1 @ [Exited ctx]\<rparr>"
      using ctx(1) v by (simp add: Let_def)
    have r0: "status ?s0 = Running" using assms(2) by (simp add: emit_def)
    have t0: "trace ?s0 = trace s @ [Called ctx [] (Returns v)]" by (simp add: emit_def)
    have r1: "status ?s1 = Running" using assms(3) e by simp
    from straight_trace [OF calls_straight [OF ctx(2)] r0, of \<omega> fuel] r1
    obtain d where d: "trace ?s1 = trace ?s0 @ d" "map site_of d = concat (map sites body)"
      by auto
    have "trace (exec \<omega> fuel c s) = trace s @ (Called ctx [] (Returns v) # d @ [Exited ctx])"
      using e d(1) t0 by simp
    moreover have "map site_of (Called ctx [] (Returns v) # d @ [Exited ctx]) = sites c"
      using d(2) ctx(1) by simp
    ultimately show ?thesis by metis
  qed
qed

lemma plain_execs:
  assumes "list_all plain p" and "status s = Running" and "status (execs \<omega> fuel p s) = Running"
  shows "\<exists>d. trace (execs \<omega> fuel p s) = trace s @ d \<and>
           filter file_site (map site_of d) = file_sites p"
  using assms
proof (induction p arbitrary: s)
  case Nil
  then show ?case by (simp add: file_sites_def)
next
  case (Cons c cs)
  let ?s1 = "exec \<omega> fuel c s"
  have e: "execs \<omega> fuel (c # cs) s = execs \<omega> fuel cs ?s1"
    using Cons.prems(2) by simp
  have r1: "status ?s1 = Running"
  proof (rule ccontr)
    assume "status ?s1 \<noteq> Running"
    then show False using e Cons.prems(3) by (simp add: execs_stopped)
  qed
  from Cons.prems(1) have "plain c" by simp
  from plain_exec [OF this Cons.prems(2) r1]
  obtain d1 where d1: "trace ?s1 = trace s @ d1"
    "filter file_site (map site_of d1) = filter file_site (sites c)"
    by blast
  from Cons.prems(1) have "list_all plain cs" by simp
  from Cons.IH [OF this r1] Cons.prems(3) e
  obtain d where d: "trace (execs \<omega> fuel cs ?s1) = trace ?s1 @ d"
    "filter file_site (map site_of d) = file_sites cs"
    by auto
  have "trace (execs \<omega> fuel (c # cs) s) = trace s @ (d1 @ d)"
    using e d(1) d1(1) by simp
  moreover have "filter file_site (map site_of (d1 @ d)) = file_sites (c # cs)"
    using d1(2) d(2) by (simp add: file_sites_def)
  ultimately show ?case by blast
qed

text \<open>A call that is a statement of a cell has been made, and has returned, in a run that completes.\<close>

lemma toplevel_call:
  assumes "Call tgt f as \<in> set p" and "status s = Running"
    and "status (execs \<omega> fuel p s) = Running"
  shows "\<exists>v. Called f as (Returns v) \<in> set (trace (execs \<omega> fuel p s))"
proof -
  from assms(1) obtain xs ys where p: "p = xs @ Call tgt f as # ys"
    by (auto dest: split_list)
  let ?s1 = "execs \<omega> fuel xs s"
  let ?s2 = "do_call \<omega> tgt f as ?s1"
  have e: "execs \<omega> fuel p s = execs \<omega> fuel (Call tgt f as # ys) ?s1"
    unfolding p by (rule execs_append)
  have r1: "status ?s1 = Running"
  proof (rule ccontr)
    assume "status ?s1 \<noteq> Running"
    then show False using e assms(3) by (simp add: execs_stopped)
  qed
  then have e2: "execs \<omega> fuel p s = execs \<omega> fuel ys ?s2" using e by simp
  have r2: "status ?s2 = Running"
  proof (rule ccontr)
    assume "status ?s2 \<noteq> Running"
    then show False using e2 assms(3) by (simp add: execs_stopped)
  qed
  then obtain v where "outcome \<omega> (clock ?s1) = Returns v"
    by (cases "outcome \<omega> (clock ?s1)") (auto simp: do_call_def emit_def raise_def)
  then have "Called f as (Returns v) \<in> set (trace ?s2)"
    by (cases tgt) (simp_all add: do_call_def emit_def)
  moreover obtain d where "trace (execs \<omega> fuel ys ?s2) = trace ?s2 @ d" by (rule execs_new)
  ultimately show ?thesis using e2 by auto
qed

lemma file_accesses_append: "file_accesses (t @ t') = file_accesses t @ file_accesses t'"
  by (simp add: file_accesses_def)

text \<open>The file accesses of a run of a MatOpt notebook that completes, and its solve.\<close>

lemma matopt_file_accesses:
  assumes "(nb, before, after) \<in> set matopt_files" and "status (run \<omega> fuel nb) = Running"
  shows "file_accesses (trace (run \<omega> fuel nb)) =
           before @ (if solve_succeeded (trace (run \<omega> fuel nb)) then after else [])"
    and "list_ex (\<lambda>ev. solve_call_site (site_of ev)) (trace (run \<omega> fuel nb))"
proof -
  from assms(1) obtain i where i: "i < length matopt_files" "matopt_files ! i = (nb, before, after)"
    by (auto simp: in_set_conv_nth)
  have l: "length matopt_shapes = length matopt_files"
    using matopt_files_shapes by (rule list_all2_lengthD)
  obtain nb' pre v as body where x: "matopt_shapes ! i = (nb', pre, v, as, body)"
    by (cases "matopt_shapes ! i")
  have "fst (matopt_shapes ! i) = fst (matopt_files ! i)"
    using i(1) l matopt_files_names by (metis nth_map)
  then have nb': "nb' = nb" using x i(2) by simp
  have xs: "(nb, pre, v, as, body) \<in> set matopt_shapes"
    using x nb' i(1) l by (metis nth_mem)
  from list_all2_nthD [OF matopt_files_shapes, of i] i l x
  have st: "list_all plain pre" "file_sites pre = before" "list_all plain body"
    "file_sites body = after"
    by simp_all
  note sh = shape_facts [OF xs]
  let ?s1 = "execs \<omega> fuel pre init"
  note run = shaped_run [OF sh(1), of \<omega> fuel]
  have r1: "status ?s1 = Running"
  proof (rule ccontr)
    assume "status ?s1 \<noteq> Running"
    then show False using run assms(2) by (simp add: Let_def)
  qed
  have i0: "status init = Running" "trace init = []" by (simp_all add: init_def)
  from plain_execs [OF st(1) i0(1) r1] i0(2) st(2)
  have b: "file_accesses (trace ?s1) = before" by (auto simp: file_accesses_def)
  have m: "solve_call_site (SCall ''m.maximize'' as)" by (simp add: solve_method_def)
  have nf: "\<not> file_callee ''m.maximize''" by (simp add: file_callee_def ends_with_def)
  have "file_accesses (trace (run \<omega> fuel nb)) =
           before @ (if solve_succeeded (trace (run \<omega> fuel nb)) then after else []) \<and>
        list_ex (\<lambda>ev. solve_call_site (site_of ev)) (trace (run \<omega> fuel nb))"
  proof (cases "outcome \<omega> (clock ?s1)")
    case (Raises e)
    then have t: "trace (run \<omega> fuel nb) =
        trace ?s1 @ [Called ''m.maximize'' as (Raises e), Printed [StrLit fallback]]"
      using run r1 by (simp add: Let_def unsolved_def)
    have "file_accesses (trace (run \<omega> fuel nb)) = before"
      unfolding t file_accesses_append b using nf by (simp add: file_accesses_def)
    then show ?thesis using t solve_failed(1) m by simp
  next
    case (Returns r)
    show ?thesis
    proof (cases "r = VNone")
      case True
      then have t: "trace (run \<omega> fuel nb) = trace ?s1 @ [Called ''m.maximize'' as (Returns VNone)]"
        using run r1 Returns by (simp add: Let_def solved_def)
      have "file_accesses (trace (run \<omega> fuel nb)) = before"
        unfolding t file_accesses_append b using nf by (simp add: file_accesses_def)
      then show ?thesis using t solve_failed(2) m by simp
    next
      case False
      let ?s2 = "solved v as r ?s1"
      have e: "run \<omega> fuel nb = execs \<omega> fuel body ?s2"
        using run r1 Returns False by (simp add: Let_def)
      have t2: "trace ?s2 = trace ?s1 @ [Called ''m.maximize'' as (Returns r)]"
        and r2: "status ?s2 = Running"
        using r1 by (simp_all add: solved_def)
      obtain d where d: "trace (execs \<omega> fuel body ?s2) = trace ?s2 @ d"
        and ds: "site_of ` set d \<subseteq> set (concat (map sites body))"
        by (rule execs_new)
      from plain_execs [OF st(3) r2, of \<omega> fuel] assms(2) e d st(4)
      have a: "file_accesses d = after" by (auto simp: file_accesses_def)
      have t: "trace (run \<omega> fuel nb) = trace ?s1 @ [Called ''m.maximize'' as (Returns r)] @ d"
        using e d t2 by simp
      have "solve_outcomes d = []"
        using sh(3) ds by (rule solve_outcomes_none)
      then have "solve_succeeded (trace (run \<omega> fuel nb))"
        unfolding t using False by (simp add: solve_succeeded_def solve_outcomes_append)
      moreover have "file_accesses (trace (run \<omega> fuel nb)) = before @ after"
        unfolding t file_accesses_append b a using nf by (simp add: file_accesses_def)
      ultimately show ?thesis using t m by simp
    qed
  qed
  then show "file_accesses (trace (run \<omega> fuel nb)) =
           before @ (if solve_succeeded (trace (run \<omega> fuel nb)) then after else [])"
    and "list_ex (\<lambda>ev. solve_call_site (site_of ev)) (trace (run \<omega> fuel nb))"
    by simp_all
qed

text \<open>The file accesses of a run of a RIPE notebook that completes, and its fit.\<close>

lemma ripe_file_accesses:
  assumes "(nb, before, after) \<in> set ripe_files" and "status (run \<omega> fuel nb) = Running"
  shows "file_accesses (trace (run \<omega> fuel nb)) =
           before @ (if solve_succeeded (trace (run \<omega> fuel nb)) then after else [])"
    and "list_ex (\<lambda>ev. solve_call_site (site_of ev)) (trace (run \<omega> fuel nb))"
proof -
  from assms(1) ripe_files_plain
  have st: "list_all plain (concat nb)" "file_sites (concat nb) = before" "after = []"
    "list_ex is_fit (concat nb)"
    unfolding list_all_iff by auto
  have i0: "status init = Running" "trace init = []" by (simp_all add: init_def)
  from plain_execs [OF st(1) i0(1), of \<omega> fuel] assms(2) i0(2) st(2)
  have "file_accesses (trace (run \<omega> fuel nb)) = before"
    by (auto simp: file_accesses_def run_def)
  then show "file_accesses (trace (run \<omega> fuel nb)) =
           before @ (if solve_succeeded (trace (run \<omega> fuel nb)) then after else [])"
    using st(3) by simp
  from st(4) obtain c where c: "c \<in> set (concat nb)" "is_fit c"
    unfolding list_ex_iff by blast
  from c(2) obtain tgt as where "c = Call tgt ''ripe.ripemodel'' as" by (cases c) auto
  with c(1) have "Call tgt ''ripe.ripemodel'' as \<in> set (concat nb)" by simp
  from toplevel_call [OF this i0(1), of \<omega> fuel] assms(2)
  obtain v where "Called ''ripe.ripemodel'' as (Returns v) \<in> set (trace (run \<omega> fuel nb))"
    by (auto simp: run_def)
  then show "list_ex (\<lambda>ev. solve_call_site (site_of ev)) (trace (run \<omega> fuel nb))"
    unfolding list_ex_iff by (force simp: solve_method_def)
qed

text \<open>
  C3. In every run of every notebook, every call is one of: a \<^verbatim>\<open>toPDB\<close> that writes a
  file named \<^verbatim>\<open>*.pdb\<close>; a \<^verbatim>\<open>toCFG\<close> that writes a file named
  \<^verbatim>\<open>*.cfg\<close>; the temporary directory, the opening of \<^verbatim>\<open>./confs.zip\<close>, its
  extraction into that directory and the loading of the PDB conformations from it; the
  reading of \<^verbatim>\<open>clc.csv\<close>; an invocation of the solver (\<^verbatim>\<open>m.maximize\<close>,
  \<^verbatim>\<open>ripe.ripemodel\<close>) that is given no file name; or a call of a function known to
  work in memory, given no file name. A run that completes has invoked the solver, and its
  file accesses are exactly those of the table, in order: the ones before the final
  solve (the structure files of the canvas, the conformations read from
  \<^verbatim>\<open>confs.zip\<close>, the kinetics data read from \<^verbatim>\<open>clc.csv\<close>), followed, when the
  solve returned a design, by the writing of the result files. The table has a row for every
  notebook.
\<close>

theorem file_access:
  "map fst file_table = notebooks \<and>
   (nb \<in> set notebooks \<longrightarrow>
      list_all (\<lambda>ev. call_ok (site_of ev)) (trace (run \<omega> fuel nb))) \<and>
   ((nb, before, after) \<in> set file_table \<and> status (run \<omega> fuel nb) = Running \<longrightarrow>
      file_accesses (trace (run \<omega> fuel nb)) =
        before @ (if solve_succeeded (trace (run \<omega> fuel nb)) then after else []) \<and>
      list_ex (\<lambda>ev. solve_call_site (site_of ev)) (trace (run \<omega> fuel nb)))"
proof (intro conjI impI)
  show "map fst file_table = notebooks" by (rule file_table_notebooks)
next
  assume "nb \<in> set notebooks"
  then have "list_all call_ok (sites_of nb)"
    using calls_ok unfolding list_all_iff [of _ notebooks] by blast
  then show "list_all (\<lambda>ev. call_ok (site_of ev)) (trace (run \<omega> fuel nb))"
    by (rule run_events_ok)
next
  assume a: "(nb, before, after) \<in> set file_table \<and> status (run \<omega> fuel nb) = Running"
  then consider "(nb, before, after) \<in> set matopt_files" | "(nb, before, after) \<in> set ripe_files"
    by (auto simp: file_table_def)
  then have "file_accesses (trace (run \<omega> fuel nb)) =
        before @ (if solve_succeeded (trace (run \<omega> fuel nb)) then after else []) \<and>
      list_ex (\<lambda>ev. solve_call_site (site_of ev)) (trace (run \<omega> fuel nb))"
  proof cases
    case 1
    then show ?thesis using a matopt_file_accesses [of nb before after \<omega> fuel] by blast
  next
    case 2
    then show ?thesis using a ripe_file_accesses [of nb before after \<omega> fuel] by blast
  qed
  then show "file_accesses (trace (run \<omega> fuel nb)) =
        before @ (if solve_succeeded (trace (run \<omega> fuel nb)) then after else [])"
    and "list_ex (\<lambda>ev. solve_call_site (site_of ev)) (trace (run \<omega> fuel nb))"
    by simp_all
qed


theorem file_access_witness:
  "perovskite \<in> set notebooks \<and>
   (perovskite,
    [SCall ''TemporaryDirectory'' [],
     SCall ''ZipFile'' [pos (StrLit ''./confs.zip'')],
     SCall ''ZipFile.extractall'' [pos (Name ''ConfDir'')],
     SCall ''loadFromPDBs''
       [pos (Expr ''[str(i) + .pdb for i in iDesiredConfs]''),
        kw ''folder'' (Expr ''ConfDir + /confs/'')],
     SExit ''TemporaryDirectory''],
    [SCall ''D.toCFG'' [pos (StrLit ''result.cfg''), kw ''BBox'' (Name ''S'')]]) \<in> set file_table \<and>
   status (run all_ok 0 perovskite) = Running \<and>
   solve_succeeded (trace (run all_ok 0 perovskite)) \<and>
   file_accesses (trace (run all_ok 0 perovskite)) =
     [SCall ''TemporaryDirectory'' [],
      SCall ''ZipFile'' [pos (StrLit ''./confs.zip'')],
      SCall ''ZipFile.extractall'' [pos (Name ''ConfDir'')],
      SCall ''loadFromPDBs''
        [pos (Expr ''[str(i) + .pdb for i in iDesiredConfs]''),
         kw ''folder'' (Expr ''ConfDir + /confs/'')],
      SExit ''TemporaryDirectory'',
      SCall ''D.toCFG'' [pos (StrLit ''result.cfg''), kw ''BBox'' (Name ''S'')]] \<and>
   list_all (\<lambda>ev. call_ok (site_of ev)) (trace (run all_ok 0 perovskite)) \<and>
   list_ex (\<lambda>ev. solve_call_site (site_of ev)) (trace (run all_ok 0 perovskite)) \<and>
   (clc, [SCall ''np.genfromtxt'' [pos (StrLit ''clc.csv''), kw ''delimiter'' (StrLit '','')]], [])
     \<in> set file_table \<and>
   status (run all_ok 0 clc) = Running \<and>
   file_accesses (trace (run all_ok 0 clc)) =
     [SCall ''np.genfromtxt'' [pos (StrLit ''clc.csv''), kw ''delimiter'' (StrLit '','')]]"
proof -
  let ?before = "[SCall ''TemporaryDirectory'' [],
     SCall ''ZipFile'' [pos (StrLit ''./confs.zip'')],
     SCall ''ZipFile.extractall'' [pos (Name ''ConfDir'')],
     SCall ''loadFromPDBs''
       [pos (Expr ''[str(i) + .pdb for i in iDesiredConfs]''),
        kw ''folder'' (Expr ''ConfDir + /confs/'')],
     SExit ''TemporaryDirectory'']"
  let ?after = "[SCall ''D.toCFG'' [pos (StrLit ''result.cfg''), kw ''BBox'' (Name ''S'')]]"
  let ?read = "[SCall ''np.genfromtxt'' [pos (StrLit ''clc.csv''), kw ''delimiter'' (StrLit '','')]]"
  have m: "perovskite \<in> set notebooks"
    by (simp add: notebooks_def matopt_notebooks_def)
  have t: "(perovskite, ?before, ?after) \<in> set file_table"
    by (simp add: file_table_def matopt_files_def)
  have r: "status (run all_ok 0 perovskite) = Running"
    by code_simp
  have s: "solve_succeeded (trace (run all_ok 0 perovskite))"
    by code_simp
  have t': "(clc, ?read, []) \<in> set file_table"
    by (simp add: file_table_def ripe_files_def)
  have r': "status (run all_ok 0 clc) = Running"
    by code_simp
  show ?thesis
    using file_access [of perovskite all_ok 0 ?before ?after]
      file_access [of clc all_ok 0 ?read "[]"] m t r s t' r'
    by simp
qed

end
